theory Spec2Isabelle
  imports Main
begin

section \<open>Protocol entities\<close>

text \<open>
  The kinds of server packet that \<open>client.py\<close> tells apart (\<open>ServerPacketTypes\<close>);
  every other kind is \<open>OTHER\<close> with its wire tag.
\<close>

datatype ServerPacketTypes =
  DATA | EXCEPTION | PROGRESS | END_OF_STREAM | TOTALS | EXTREMES | OTHER nat

text \<open>
  Exceptions are values. \<open>ServerException\<close> is the error embedded in an exception packet,
  \<open>TransportError\<close> a failure of the connection itself; the others are the Python
  exceptions that the module raises or that its statements can raise.
\<close>

datatype error =
    ServerException nat string
  | TransportError string
  | UnexpectedPacketFromServerError "string \<times> ServerPacketTypes"
  | ValueError string
  | TypeError string
  | IndexError

text \<open>
  What a \<open>raise\<close> statement raises: an instance of \<open>Exception\<close>, or
  \<open>KeyboardInterrupt\<close> or \<open>SystemExit\<close>, the exceptions that are not instances of
  \<open>Exception\<close> and that an \<open>except Exception\<close> clause lets pass.
\<close>

datatype raised = Exception error | KeyboardInterrupt | SystemExit

text \<open>\<open>isinstance(e, Exception)\<close>: what an \<open>except Exception\<close> clause catches.\<close>

definition caught :: "raised \<Rightarrow> bool" where
  "caught e = (case e of Exception x \<Rightarrow> True | _ \<Rightarrow> False)"

type_synonym columns_spec = "(string \<times> string) list"

text \<open>
  Modelled from the spec: class \<open>Block\<close> (\<open>block.py\<close> is not among the sources). A block
  received from the server is the record of what \<open>QueryResult.store\<close> reads from it: the
  attribute \<open>columns_with_types\<close>, the row count \<open>rows\<close>, and the two views
  \<open>get_columns()\<close> (one list per column) and \<open>get_rows()\<close> (one list per row).
\<close>

record 'v block =
  block_columns_with_types :: columns_spec
  rows :: nat
  get_columns :: "'v list list"
  get_rows :: "'v list list"

text \<open>Python's \<open>list(zip(*columns))\<close>: the rows of a list of columns, cut at the shortest.\<close>

fun transposed :: "'a list list \<Rightarrow> 'a list list" where
  "transposed [] = []"
| "transposed [c] = map (\<lambda>x. [x]) c"
| "transposed (c # cs) = map2 (#) c (transposed cs)"

text \<open>
  Modelled from the spec: a block is a rectangular batch, retrievable row-major or
  column-major. Both views show the same \<open>rows\<close> rows.
\<close>

definition rectangular :: "'v block \<Rightarrow> bool" where
  "rectangular b \<longleftrightarrow>
     length (get_rows b) = rows b \<and>
     list_all (\<lambda>c. length c = rows b) (get_columns b) \<and>
     get_rows b = transposed (get_columns b)"

record progress =
  progress_rows :: int
  progress_bytes :: int
  progress_total_rows :: int

text \<open>
  A packet as \<open>connection.receive_packet()\<close> hands it over: its \<open>type\<close> and the
  attributes \<open>block\<close>, \<open>progress\<close> and \<open>exception\<close>, each possibly \<open>None\<close>.
\<close>

record 'v packet =
  packet_type :: ServerPacketTypes
  block :: "'v block option"
  progress :: "progress option"
  exception :: "error option"

section \<open>The connection\<close>

type_synonym settings = "string \<rightharpoonup> string"

text \<open>
  Every method called on the connection is logged in call order. A block built by the
  client is logged by the arguments of its constructor: \<open>Block(columns_with_types, data,
  types_check)\<close>, and \<open>Block()\<close> is \<open>SendData [] [] False\<close>.
\<close>

datatype 'v call =
    ForceConnect
  | SendQuery string "string option" settings
  | SendExternalTables "string list option" bool
  | SendData columns_spec "'v list list" bool
  | ReceivePacket
  | Disconnect

text \<open>
  Modelled from the spec: class \<open>Connection\<close> (\<open>connection.py\<close> is not among the
  sources). The transport is a script: \<open>inbox\<close> holds what the successive reads will
  produce (a packet, or what the read raises), \<open>faults\<close> what the successive connects and
  writes will do (\<open>Some e\<close> raises \<open>e\<close>; past the end of the list they succeed).
  \<open>context_settings\<close> and \<open>insert_block_size\<close> are \<open>context.settings\<close> and
  \<open>context.client_settings['insert_block_size']\<close>.
\<close>

record 'v connection =
  connected :: bool
  context_settings :: settings
  insert_block_size :: nat
  inbox :: "(raised + 'v packet) list"
  faults :: "raised option list"
  calls :: "'v call list"

definition logged :: "'v call \<Rightarrow> 'v connection \<Rightarrow> 'v connection" where
  "logged k c = c\<lparr>calls := calls c @ [k]\<rparr>"

text \<open>A connect or a write: it takes the next entry of \<open>faults\<close>.\<close>

definition transport_write :: "'v call \<Rightarrow> 'v connection \<Rightarrow> (raised + unit) \<times> 'v connection" where
  "transport_write k c =
     (case faults c of
        [] \<Rightarrow> (Inr (), logged k c)
      | None # fs \<Rightarrow> (Inr (), logged k (c\<lparr>faults := fs\<rparr>))
      | Some e # fs \<Rightarrow> (Inl e, logged k (c\<lparr>faults := fs\<rparr>)))"

text \<open>\<open>disconnect()\<close> is idempotent and never fails.\<close>

definition connection_disconnect :: "'v connection \<Rightarrow> 'v connection" where
  "connection_disconnect c = logged Disconnect (c\<lparr>connected := False\<rparr>)"

text \<open>
  Modelled from the spec: \<open>force_connect()\<close> ensures that the connection is
  established. A failure of the transport disconnects it before the error surfaces, as
  the spec says of every failure of a session; an exception that is not an instance of
  \<open>Exception\<close> interrupts the connect where it stands.
\<close>

definition connection_force_connect :: "'v connection \<Rightarrow> (raised + unit) \<times> 'v connection" where
  "connection_force_connect c =
     (case transport_write ForceConnect c of
        (Inl e, c') \<Rightarrow> (Inl e, if caught e then connection_disconnect c' else c')
      | (Inr u, c') \<Rightarrow> (Inr u, c'\<lparr>connected := True\<rparr>))"

definition connection_send_query ::
  "'v connection \<Rightarrow> string \<Rightarrow> string option \<Rightarrow> settings \<Rightarrow> (raised + unit) \<times> 'v connection" where
  "connection_send_query c query query_id st = transport_write (SendQuery query query_id st) c"

definition connection_send_external_tables ::
  "'v connection \<Rightarrow> string list option \<Rightarrow> bool \<Rightarrow> (raised + unit) \<times> 'v connection" where
  "connection_send_external_tables c external_tables types_check =
     transport_write (SendExternalTables external_tables types_check) c"

definition connection_send_data ::
  "'v connection \<Rightarrow> columns_spec \<Rightarrow> 'v list list \<Rightarrow> bool \<Rightarrow> (raised + unit) \<times> 'v connection" where
  "connection_send_data c cols chunk types_check = transport_write (SendData cols chunk types_check) c"

text \<open>
  A read takes the next entry of \<open>inbox\<close>. When the script is exhausted the peer has
  nothing more to send and the read fails with a transport error.
\<close>

definition connection_receive_packet :: "'v connection \<Rightarrow> (raised + 'v packet) \<times> 'v connection" where
  "connection_receive_packet c =
     (case inbox c of
        [] \<Rightarrow>
          (Inl (Exception (TransportError ''Unexpected EOF while reading bytes'')),
           logged ReceivePacket c)
      | x # rest \<Rightarrow> (x, logged ReceivePacket (c\<lparr>inbox := rest\<rparr>)))"

text \<open>
  Modelled from the spec: \<open>connection.unexpected_packet_message(expected, packet_type)\<close>
  names what was expected and what was received; the wording of the message is kept
  abstract as that pair.
\<close>

definition unexpected_packet_message :: "string \<Rightarrow> ServerPacketTypes \<Rightarrow> string \<times> ServerPacketTypes" where
  "unexpected_packet_message expected received = (expected, received)"

section \<open>QueryResult\<close>

text \<open>
  The state of a Python generator object that matters to its consumer: once it has
  returned or raised, every further \<open>next()\<close> raises \<open>StopIteration\<close>.
\<close>

datatype generator = Suspended | Finished

record 'v query_result =
  packet_generator :: generator
  with_column_types :: bool
  data :: "'v list list"
  columns_with_types :: columns_spec
  columnar :: bool

definition QueryResult :: "bool \<Rightarrow> bool \<Rightarrow> 'v query_result" where
  "QueryResult wct col =
     \<lparr>packet_generator = Suspended, with_column_types = wct, data = [],
      columns_with_types = [], columnar = col\<rparr>"

text \<open>
  \<open>for i, column in enumerate(columns): self.data[i] += column\<close>. Indexing past the end
  of \<open>self.data\<close> raises \<open>IndexError\<close>; columns of \<open>self.data\<close> past the end of
  \<open>columns\<close> stay as they are. The exception replaces the accumulator's state: the
  columns that Python had already extended are not kept.
\<close>

fun extend_columns :: "'v list list \<Rightarrow> 'v list list \<Rightarrow> error + 'v list list" where
  "extend_columns ds [] = Inr ds"
| "extend_columns [] (c # cs) = Inl IndexError"
| "extend_columns (d # ds) (c # cs) =
     (case extend_columns ds cs of Inl e \<Rightarrow> Inl e | Inr ds' \<Rightarrow> Inr ((d @ c) # ds'))"

definition store ::
  "('v, 'z) query_result_scheme \<Rightarrow> 'v packet \<Rightarrow> error + ('v, 'z) query_result_scheme" where
  "store self packet =
     (case block packet of
        None \<Rightarrow> Inr self
      | Some b \<Rightarrow>
          if rows b \<noteq> 0 then
            if columnar self then
              if data self \<noteq> [] then
                (case extend_columns (data self) (get_columns b) of
                   Inl e \<Rightarrow> Inl e
                 | Inr ds \<Rightarrow> Inr (self\<lparr>data := ds\<rparr>))
              else Inr (self\<lparr>data := data self @ get_columns b\<rparr>)
            else Inr (self\<lparr>data := data self @ get_rows b\<rparr>)
          else if columns_with_types self = [] then
            Inr (self\<lparr>columns_with_types := block_columns_with_types b\<rparr>)
          else Inr self)"

text \<open>\<open>for packet in packets: self.store(packet)\<close> over a given finite sequence of packets.\<close>

fun store_all ::
  "('v, 'z) query_result_scheme \<Rightarrow> 'v packet list \<Rightarrow> error + ('v, 'z) query_result_scheme" where
  "store_all self [] = Inr self"
| "store_all self (p # ps) =
     (case store self p of Inl e \<Rightarrow> Inl e | Inr self' \<Rightarrow> store_all self' ps)"


text \<open>
  One step of an iterator: \<open>next()\<close> returns an item, raises \<open>StopIteration\<close> (the
  iteration is over), or raises another exception.
\<close>

datatype 'a step = Yield 'a | StopIteration | Raise raised

section \<open>Client: the packet stream\<close>

text \<open>What \<open>Client.receive_packet\<close> returns: a packet, \<open>False\<close> or \<open>True\<close>.\<close>

datatype 'v received = Packet "'v packet" | PyFalse | PyTrue

text \<open>\<open>raise packet.exception\<close>; raising \<open>None\<close> is a \<open>TypeError\<close>.\<close>

definition raise_exception :: "'v packet \<Rightarrow> raised" where
  "raise_exception packet =
     (case exception packet of
        Some e \<Rightarrow> Exception e
      | None \<Rightarrow> Exception (TypeError ''exceptions must derive from BaseException''))"

definition receive_packet :: "'v connection \<Rightarrow> (raised + 'v received) \<times> 'v connection" where
  "receive_packet c =
     (case connection_receive_packet c of
        (Inl e, c') \<Rightarrow> (Inl e, c')
      | (Inr packet, c') \<Rightarrow>
          if packet_type packet = EXCEPTION then (Inl (raise_exception packet), c')
          else if packet_type packet = PROGRESS then (Inr (Packet packet), c')
          else if packet_type packet = END_OF_STREAM then (Inr PyFalse, c')
          else if packet_type packet = DATA then (Inr (Packet packet), c')
          else if packet_type packet = TOTALS then (Inr (Packet packet), c')
          else if packet_type packet = EXTREMES then (Inr (Packet packet), c')
          else (Inr PyTrue, c'))"

text \<open>
  The body of \<open>Client.packet_generator\<close> from the top of its loop to the next
  \<open>yield\<close>, \<open>break\<close> or exception. A packet object is truthy, so \<open>not packet\<close> holds for
  \<open>False\<close> only. The handler is \<open>except Exception\<close>.
\<close>

function packet_generator_body :: "'v connection \<Rightarrow> 'v packet step \<times> 'v connection" where
  "packet_generator_body c =
     (case receive_packet c of
        (Inl e, c') \<Rightarrow> (Raise e, if caught e then connection_disconnect c' else c')
      | (Inr PyFalse, c') \<Rightarrow> (StopIteration, c')
      | (Inr PyTrue, c') \<Rightarrow> packet_generator_body c'
      | (Inr (Packet packet), c') \<Rightarrow> (Yield packet, c'))"
  by pat_completeness auto
termination
  by (relation "measure (\<lambda>c. length (inbox c))")
    (auto simp: receive_packet_def connection_receive_packet_def logged_def
      split: list.splits sum.splits if_splits)

declare packet_generator_body.simps [simp del]

text \<open>\<open>next(gen)\<close> on the generator object that \<open>Client.packet_generator()\<close> returned.\<close>

definition packet_generator_next ::
  "generator \<Rightarrow> 'v connection \<Rightarrow> 'v packet step \<times> generator \<times> 'v connection" where
  "packet_generator_next g c =
     (case g of
        Finished \<Rightarrow> (StopIteration, Finished, c)
      | Suspended \<Rightarrow>
          (case packet_generator_body c of
             (Yield packet, c') \<Rightarrow> (Yield packet, Suspended, c')
           | (StopIteration, c') \<Rightarrow> (StopIteration, Finished, c')
           | (Raise e, c') \<Rightarrow> (Raise e, Finished, c')))"


lemma receive_packet_consumes:
  "receive_packet c = (Inr r, c') \<Longrightarrow> length (inbox c') < length (inbox c)"
  by (auto simp: receive_packet_def connection_receive_packet_def logged_def
      split: list.splits sum.splits if_splits)

lemma packet_generator_body_consumes:
  "packet_generator_body c = (Yield packet, c') \<Longrightarrow> length (inbox c') < length (inbox c)"
proof (induction c arbitrary: packet c' rule: packet_generator_body.induct)
  case (1 c)
  obtain r c1 where rc: "receive_packet c = (r, c1)"
    by (cases "receive_packet c")
  show ?case
  proof (cases r)
    case (Inl e)
    with rc "1.prems" show ?thesis
      by (simp add: packet_generator_body.simps[of c])
  next
    case (Inr x)
    with rc have less: "length (inbox c1) < length (inbox c)"
      by (simp add: receive_packet_consumes)
    show ?thesis
    proof (cases x)
      case (Packet p)
      with Inr rc "1.prems" less show ?thesis
        by (simp add: packet_generator_body.simps[of c])
    next
      case PyFalse
      with Inr rc "1.prems" show ?thesis
        by (simp add: packet_generator_body.simps[of c])
    next
      case PyTrue
      with Inr rc "1.prems" have "packet_generator_body c1 = (Yield packet, c')"
        by (simp add: packet_generator_body.simps[of c])
      with "1.IH"[OF rc[symmetric] Inr PyTrue] have "length (inbox c') < length (inbox c1)"
        by simp
      with less show ?thesis by simp
    qed
  qed
qed

lemma packet_generator_next_consumes:
  "packet_generator_next g c = (Yield packet, g', c') \<Longrightarrow> length (inbox c') < length (inbox c)"
  by (auto simp: packet_generator_next_def split: generator.splits prod.splits step.splits
      dest: packet_generator_body_consumes)

section \<open>QueryResult.get_result\<close>

datatype 'v result = NoResult | Rows "'v list list" | RowsWithTypes "'v list list" columns_spec

text \<open>\<open>for packet in self.packet_generator: self.store(packet)\<close>.\<close>

function get_result_loop ::
  "('v, 'z) query_result_scheme \<Rightarrow> 'v connection \<Rightarrow>
     (raised + unit) \<times> ('v, 'z) query_result_scheme \<times> 'v connection" where
  "get_result_loop self c =
     (case packet_generator_next (packet_generator self) c of
        (StopIteration, g, c') \<Rightarrow> (Inr (), self\<lparr>packet_generator := g\<rparr>, c')
      | (Raise e, g, c') \<Rightarrow> (Inl e, self\<lparr>packet_generator := g\<rparr>, c')
      | (Yield packet, g, c') \<Rightarrow>
          (case store (self\<lparr>packet_generator := g\<rparr>) packet of
             Inl e \<Rightarrow> (Inl (Exception e), self\<lparr>packet_generator := g\<rparr>, c')
           | Inr self' \<Rightarrow> get_result_loop self' c'))"
  by pat_completeness auto
termination
  by (relation "measure (\<lambda>(self, c). length (inbox c))")
    (auto dest: packet_generator_next_consumes[OF sym])

declare get_result_loop.simps [simp del]

definition get_result ::
  "('v, 'z) query_result_scheme \<Rightarrow> 'v connection \<Rightarrow>
     (raised + 'v result) \<times> ('v, 'z) query_result_scheme \<times> 'v connection" where
  "get_result self c =
     (case get_result_loop self c of
        (Inl e, self', c') \<Rightarrow> (Inl e, self', c')
      | (Inr u, self', c') \<Rightarrow>
          (Inr (if with_column_types self'
                then RowsWithTypes (data self') (columns_with_types self')
                else Rows (data self')),
           self', c'))"

section \<open>ProgressQueryResult\<close>

record 'v progress_query_result = "'v query_result" +
  progress_totals :: progress

definition Progress :: progress where
  "Progress = \<lparr>progress_rows = 0, progress_bytes = 0, progress_total_rows = 0\<rparr>"

definition ProgressQueryResult :: "bool \<Rightarrow> bool \<Rightarrow> 'v progress_query_result" where
  "ProgressQueryResult wct col =
     \<lparr>packet_generator = Suspended, with_column_types = wct, data = [],
      columns_with_types = [], columnar = col, progress_totals = Progress\<rparr>"

definition store_progress ::
  "'v progress_query_result \<Rightarrow> progress \<Rightarrow> (int \<times> int) \<times> 'v progress_query_result" where
  "store_progress self progress_packet =
     (let totals =
        \<lparr>progress_rows = progress_rows (progress_totals self) + progress_rows progress_packet,
         progress_bytes = progress_bytes (progress_totals self) + progress_bytes progress_packet,
         progress_total_rows =
           progress_total_rows (progress_totals self) + progress_total_rows progress_packet\<rparr>
      in ((progress_rows totals, progress_total_rows totals), self\<lparr>progress_totals := totals\<rparr>))"

text \<open>
  \<open>ProgressQueryResult.next\<close>. A \<open>Progress\<close> object is truthy, so \<open>if progress_packet\<close>
  asks whether the attribute is set.
\<close>

function progress_next ::
  "'v progress_query_result \<Rightarrow> 'v connection \<Rightarrow>
     (int \<times> int) step \<times> 'v progress_query_result \<times> 'v connection" where
  "progress_next self c =
     (case packet_generator_next (packet_generator self) c of
        (StopIteration, g, c') \<Rightarrow> (StopIteration, self\<lparr>packet_generator := g\<rparr>, c')
      | (Raise e, g, c') \<Rightarrow> (Raise e, self\<lparr>packet_generator := g\<rparr>, c')
      | (Yield packet, g, c') \<Rightarrow>
          (case progress packet of
             Some progress_packet \<Rightarrow>
               (case store_progress (self\<lparr>packet_generator := g\<rparr>) progress_packet of
                  (pair, self') \<Rightarrow> (Yield pair, self', c'))
           | None \<Rightarrow>
               (case store (self\<lparr>packet_generator := g\<rparr>) packet of
                  Inl e \<Rightarrow> (Raise (Exception e), self\<lparr>packet_generator := g\<rparr>, c')
                | Inr self' \<Rightarrow> progress_next self' c')))"
  by pat_completeness auto
termination
  by (relation "measure (\<lambda>(self, c). length (inbox c))")
    (auto dest: packet_generator_next_consumes[OF sym])

declare progress_next.simps [simp del]

lemma progress_next_consumes:
  "progress_next self c = (Yield pair, self', c') \<Longrightarrow> length (inbox c') < length (inbox c)"
proof (induction self c arbitrary: pair self' c' rule: progress_next.induct)
  case (1 self c)
  obtain ev g c1 where gn: "packet_generator_next (packet_generator self) c = (ev, g, c1)"
    by (cases "packet_generator_next (packet_generator self) c")
  show ?case
  proof (cases ev)
    case (Yield packet)
    with gn have less: "length (inbox c1) < length (inbox c)"
      by (simp add: packet_generator_next_consumes)
    show ?thesis
    proof (cases "progress packet")
      case (Some pp)
      with gn Yield "1.prems" less show ?thesis
        by (auto simp: progress_next.simps[of self c] split: prod.splits)
    next
      case None
      show ?thesis
      proof (cases "store (self\<lparr>packet_generator := g\<rparr>) packet")
        case (Inl e)
        with gn Yield None "1.prems" show ?thesis
          by (simp add: progress_next.simps[of self c])
      next
        case (Inr s1)
        with gn Yield None "1.prems" have "progress_next s1 c1 = (Yield pair, self', c')"
          by (simp add: progress_next.simps[of self c])
        with "1.IH"[OF gn[symmetric] Yield refl None Inr] less show ?thesis
          by fastforce
      qed
    qed
  next
    case StopIteration
    with gn "1.prems" show ?thesis
      by (simp add: progress_next.simps[of self c])
  next
    case (Raise e)
    with gn "1.prems" show ?thesis
      by (simp add: progress_next.simps[of self c])
  qed
qed

text \<open>
  \<open>for pair in self: ...\<close>: the pairs the loop sees, and the exception that ended it
  (\<open>None\<close> when the iterator was exhausted).
\<close>

function iterate ::
  "'v progress_query_result \<Rightarrow> 'v connection \<Rightarrow>
     ((int \<times> int) list \<times> raised option) \<times> 'v progress_query_result \<times> 'v connection" where
  "iterate self c =
     (case progress_next self c of
        (StopIteration, self', c') \<Rightarrow> (([], None), self', c')
      | (Raise e, self', c') \<Rightarrow> (([], Some e), self', c')
      | (Yield pair, self', c') \<Rightarrow>
          (case iterate self' c' of
             ((pairs, ending), self'', c'') \<Rightarrow> ((pair # pairs, ending), self'', c'')))"
  by pat_completeness auto
termination
  by (relation "measure (\<lambda>(self, c). length (inbox c))")
    (auto dest: progress_next_consumes[OF sym])

declare iterate.simps [simp del]

text \<open>\<open>ProgressQueryResult.get_result\<close>: drain the iterator, then \<open>QueryResult.get_result\<close>.\<close>

definition progress_get_result ::
  "'v progress_query_result \<Rightarrow> 'v connection \<Rightarrow>
     (raised + 'v result) \<times> 'v progress_query_result \<times> 'v connection" where
  "progress_get_result self c =
     (case iterate self c of
        ((pairs, Some e), self', c') \<Rightarrow> (Inl e, self', c')
      | ((pairs, None), self', c') \<Rightarrow> get_result self' c')"

section \<open>Client: inserts\<close>

text \<open>
  Modelled from the spec: \<open>util.helpers.chunks\<close> (not among the sources) cuts the row
  sequence into consecutive chunks of at most \<open>n\<close> rows, in order. The spec gives it a
  meaning for a block size \<open>n > 0\<close> only; at \<open>n = 0\<close> the model yields no chunk, and
  no statement below is about that case.
\<close>

function chunks :: "'a list \<Rightarrow> nat \<Rightarrow> 'a list list" where
  "chunks seq n = (if n = 0 \<or> seq = [] then [] else take n seq # chunks (drop n seq) n)"
  by pat_completeness auto
termination
  by (relation "measure (\<lambda>(seq, n). length seq)") auto

declare chunks.simps [simp del]

text \<open>
  Modelled from the spec: the collaborators outside this module.
  \<open>escape_and_format query params\<close> is \<open>query % escape_params(params)\<close>, the new query
  text or the exception it raises; \<open>block_init cols rows types_check\<close> is the exception,
  if any, that \<open>Block(cols, rows, types_check=types_check)\<close> raises while it validates the
  rows. \<open>Block()\<close> has nothing to validate.
\<close>

record 'v collaborators =
  escape_and_format :: "string \<Rightarrow> (string \<rightharpoonup> 'v) \<Rightarrow> error + string"
  block_init :: "columns_spec \<Rightarrow> 'v list list \<Rightarrow> bool \<Rightarrow> error option"

text \<open>The \<open>for chunk in chunks(...)\<close> loop of \<open>Client.send_data\<close>.\<close>

fun send_chunks ::
  "'v collaborators \<Rightarrow> 'v connection \<Rightarrow> columns_spec \<Rightarrow> 'v list list list \<Rightarrow> bool \<Rightarrow>
     (raised + unit) \<times> 'v connection" where
  "send_chunks E c cols [] types_check = (Inr (), c)"
| "send_chunks E c cols (chunk # rest) types_check =
     (case block_init E cols chunk types_check of
        Some e \<Rightarrow> (Inl (Exception e), c)
      | None \<Rightarrow>
          (case connection_send_data c cols chunk types_check of
             (Inl e, c') \<Rightarrow> (Inl e, c')
           | (Inr u, c') \<Rightarrow> send_chunks E c' cols rest types_check))"

definition send_data ::
  "'v collaborators \<Rightarrow> 'v connection \<Rightarrow> 'v block \<Rightarrow> 'v list list \<Rightarrow> bool \<Rightarrow>
     (raised + unit) \<times> 'v connection" where
  "send_data E c sample_block rows_data types_check =
     (case send_chunks E c (block_columns_with_types sample_block)
             (chunks rows_data (insert_block_size c)) types_check of
        (Inl e, c') \<Rightarrow> (Inl e, c')
      | (Inr u, c') \<Rightarrow> connection_send_data c' [] [] False)"

definition receive_sample_block :: "'v connection \<Rightarrow> (raised + 'v block option) \<times> 'v connection" where
  "receive_sample_block c =
     (case connection_receive_packet c of
        (Inl e, c') \<Rightarrow> (Inl e, c')
      | (Inr packet, c') \<Rightarrow>
          if packet_type packet = DATA then (Inr (block packet), c')
          else if packet_type packet = EXCEPTION then (Inl (raise_exception packet), c')
          else (Inl (Exception (UnexpectedPacketFromServerError
                      (unexpected_packet_message ''Data'' (packet_type packet)))), c'))"

text \<open>\<open>Client.process_insert_query\<close> returns nothing: \<open>NoResult\<close>.\<close>

definition process_insert_query ::
  "'v collaborators \<Rightarrow> 'v connection \<Rightarrow> string \<Rightarrow> 'v list list \<Rightarrow> string list option \<Rightarrow>
     string option \<Rightarrow> settings \<Rightarrow> bool \<Rightarrow> (raised + 'v result) \<times> 'v connection" where
  "process_insert_query E c query_without_data rows_data external_tables query_id st types_check =
     (case connection_send_query c query_without_data query_id st of
        (Inl e, c1) \<Rightarrow> (Inl e, c1)
      | (Inr u, c1) \<Rightarrow>
     (case connection_send_external_tables c1 external_tables types_check of
        (Inl e, c2) \<Rightarrow> (Inl e, c2)
      | (Inr u, c2) \<Rightarrow>
     (case receive_sample_block c2 of
        (Inl e, c3) \<Rightarrow> (Inl e, c3)
      | (Inr None, c3) \<Rightarrow> (Inr NoResult, c3)
      | (Inr (Some sample_block), c3) \<Rightarrow>
     (case send_data E c3 sample_block rows_data types_check of
        (Inl e, c4) \<Rightarrow> (Inl e, c4)
      | (Inr u, c4) \<Rightarrow>
     (case connection_receive_packet c4 of
        (Inl e, c5) \<Rightarrow> (Inl e, c5)
      | (Inr packet, c5) \<Rightarrow>
          (case exception packet of
             Some e \<Rightarrow> (Inl (Exception e), c5)
           | None \<Rightarrow> (Inr NoResult, c5)))))))"

section \<open>Client: ordinary queries and execute\<close>

text \<open>
  The \<open>params\<close> argument of \<open>execute\<close> by its Python type: \<open>None\<close>, a list or tuple (of
  rows), a dict, or any other value.
\<close>

datatype 'v params = PyNone | PyList "'v list list" | PyDict "string \<rightharpoonup> 'v" | PyOther 'v

definition substitute_params :: "'v collaborators \<Rightarrow> string \<Rightarrow> 'v params \<Rightarrow> error + string" where
  "substitute_params E query params =
     (case params of
        PyDict d \<Rightarrow> escape_and_format E query d
      | _ \<Rightarrow> Inl (ValueError ''Parameters are expected in dict form''))"

text \<open>
  \<open>Client.receive_result\<close> with \<open>progress=False\<close>, as \<open>execute\<close> calls it: a fresh
  generator and a fresh \<open>QueryResult\<close>.
\<close>

definition receive_result ::
  "'v connection \<Rightarrow> bool \<Rightarrow> bool \<Rightarrow> (raised + 'v result) \<times> 'v connection" where
  "receive_result c wct col =
     (case get_result (QueryResult wct col) c of (r, self', c') \<Rightarrow> (r, c'))"

definition process_ordinary_query ::
  "'v collaborators \<Rightarrow> 'v connection \<Rightarrow> string \<Rightarrow> 'v params \<Rightarrow> bool \<Rightarrow> string list option \<Rightarrow>
     string option \<Rightarrow> settings \<Rightarrow> bool \<Rightarrow> bool \<Rightarrow> (raised + 'v result) \<times> 'v connection" where
  "process_ordinary_query E c query params wct external_tables query_id st types_check col =
     (case (if params \<noteq> PyNone then substitute_params E query params else Inr query) of
        Inl e \<Rightarrow> (Inl (Exception e), c)
      | Inr query' \<Rightarrow>
     (case connection_send_query c query' query_id st of
        (Inl e, c1) \<Rightarrow> (Inl e, c1)
      | (Inr u, c1) \<Rightarrow>
     (case connection_send_external_tables c1 external_tables types_check of
        (Inl e, c2) \<Rightarrow> (Inl e, c2)
      | (Inr u, c2) \<Rightarrow> receive_result c2 wct col)))"

record 'v client =
  settings :: settings
  connection :: "'v connection"

text \<open>
  \<open>Client.execute\<close>. The settings merge and \<open>force_connect()\<close> stand before the
  \<open>try\<close>; the \<open>except Exception\<close> handler disconnects and re-raises, and an exception
  that is not an instance of \<open>Exception\<close> passes it.
\<close>

definition execute ::
  "'v collaborators \<Rightarrow> 'v client \<Rightarrow> string \<Rightarrow> 'v params \<Rightarrow> bool \<Rightarrow> string list option \<Rightarrow>
     string option \<Rightarrow> settings option \<Rightarrow> bool \<Rightarrow> bool \<Rightarrow> (raised + 'v result) \<times> 'v client" where
  "execute E self query params wct external_tables query_id st types_check col =
     (let query_settings = settings self ++ (case st of None \<Rightarrow> Map.empty | Some s \<Rightarrow> s);
          c0 = (connection self)\<lparr>context_settings := query_settings\<rparr>
      in case connection_force_connect c0 of
           (Inl e, c1) \<Rightarrow> (Inl e, self\<lparr>connection := c1\<rparr>)
         | (Inr u, c1) \<Rightarrow>
             (case (case params of
                      PyList rows_data \<Rightarrow>
                        process_insert_query E c1 query rows_data external_tables query_id
                          query_settings types_check
                    | _ \<Rightarrow>
                        process_ordinary_query E c1 query params wct external_tables query_id
                          query_settings types_check col) of
                (Inl e, c2) \<Rightarrow>
                  (Inl e, self\<lparr>connection := if caught e then connection_disconnect c2 else c2\<rparr>)
              | (Inr r, c2) \<Rightarrow> (Inr r, self\<lparr>connection := c2\<rparr>)))"

section \<open>Vocabulary of the properties\<close>

subsection \<open>Row-major and column-major accumulation\<close>

text \<open>
  A packet of the streams compared here: it carries a rectangular block of at least one
  row and \<open>n\<close> columns.
\<close>

definition data_bearing :: "nat \<Rightarrow> 'v packet \<Rightarrow> bool" where
  "data_bearing n p =
     (case block p of
        None \<Rightarrow> False
      | Some b \<Rightarrow> rectangular b \<and> 0 < rows b \<and> length (get_columns b) = n)"

text \<open>
  The invariant of the two accumulations run side by side: the column-major aggregate is
  empty with the row-major one, or has \<open>n\<close> columns, each as long as the row-major
  aggregate, and its rows are the row-major aggregate.
\<close>

definition in_step :: "nat \<Rightarrow> ('v, 'z) query_result_scheme \<Rightarrow> ('v, 'y) query_result_scheme \<Rightarrow> bool" where
  "in_step n qc qr \<longleftrightarrow>
     columnar qc \<and> \<not> columnar qr \<and>
     (data qc = [] \<and> data qr = [] \<or>
      length (data qc) = n \<and> data qc \<noteq> [] \<and>
      list_all (\<lambda>c. length c = length (data qr)) (data qc) \<and>
      transposed (data qc) = data qr)"

text \<open>
  Example blocks of two columns, with two rows and with one row, and the Data packet that
  carries a block.
\<close>

definition ex_block1 :: "int block" where
  "ex_block1 = \<lparr>block_columns_with_types = [(''n'', ''Int32''), (''m'', ''Int32'')], rows = 2,
     get_columns = [[1, 2], [10, 20]], get_rows = [[1, 10], [2, 20]]\<rparr>"

definition ex_block2 :: "int block" where
  "ex_block2 = \<lparr>block_columns_with_types = [(''n'', ''Int32''), (''m'', ''Int32'')], rows = 1,
     get_columns = [[3], [30]], get_rows = [[3, 30]]\<rparr>"

definition data_packet :: "'v block \<Rightarrow> 'v packet" where
  "data_packet b = \<lparr>packet_type = DATA, block = Some b, progress = None, exception = None\<rparr>"

subsection \<open>Header capture\<close>

text \<open>The schemas of the zero-row blocks of a stream, in arrival order.\<close>

fun header_schemas :: "'v packet list \<Rightarrow> columns_spec list" where
  "header_schemas [] = []"
| "header_schemas (p # ps) =
     (case block p of
        None \<Rightarrow> header_schemas ps
      | Some b \<Rightarrow>
          if rows b = 0 then block_columns_with_types b # header_schemas ps
          else header_schemas ps)"

text \<open>The first of these schemas that is not empty; empty when there is none.\<close>

definition first_schema :: "'v packet list \<Rightarrow> columns_spec" where
  "first_schema ps = (case filter (\<lambda>s. s \<noteq> []) (header_schemas ps) of [] \<Rightarrow> [] | s # _ \<Rightarrow> s)"

text \<open>Example: a Data packet with a zero-row block of the given schema.\<close>

definition header_packet :: "columns_spec \<Rightarrow> int packet" where
  "header_packet cols =
     \<lparr>packet_type = DATA,
      block = Some \<lparr>block_columns_with_types = cols, rows = 0, get_columns = map (\<lambda>_. []) cols,
                    get_rows = []\<rparr>,
      progress = None, exception = None\<rparr>"

subsection \<open>The insert pipeline\<close>

text \<open>Ceiling division, for \<open>S > 0\<close>.\<close>

definition ceil_div :: "nat \<Rightarrow> nat \<Rightarrow> nat" where
  "ceil_div N S = (N + S - 1) div S"

text \<open>The calls that write a block.\<close>

definition is_send_data :: "'v call \<Rightarrow> bool" where
  "is_send_data k = (case k of SendData cols chunk types_check \<Rightarrow> True | _ \<Rightarrow> False)"

text \<open>Examples: a connection with a given script, and collaborators that never raise.\<close>

definition scripted :: "nat \<Rightarrow> (raised + int packet) list \<Rightarrow> raised option list \<Rightarrow> int connection" where
  "scripted S packets fs =
     \<lparr>connected = False, context_settings = Map.empty, insert_block_size = S,
      inbox = packets, faults = fs, calls = []\<rparr>"

definition lenient :: "int collaborators" where
  "lenient = \<lparr>escape_and_format = (\<lambda>query d. Inr query), block_init = (\<lambda>cols rs tc. None)\<rparr>"

definition sample :: "int block" where
  "sample = \<lparr>block_columns_with_types = [(''n'', ''Int32'')], rows = 0, get_columns = [[]],
     get_rows = []\<rparr>"

definition plain_packet :: "ServerPacketTypes \<Rightarrow> int packet" where
  "plain_packet t = \<lparr>packet_type = t, block = None, progress = None, exception = None\<rparr>"

definition exception_packet :: "error \<Rightarrow> int packet" where
  "exception_packet e = \<lparr>packet_type = EXCEPTION, block = None, progress = None, exception = Some e\<rparr>"

subsection \<open>Packet streams\<close>

text \<open>The kinds that \<open>Client.receive_packet\<close> returns as packets.\<close>

definition surfaced :: "'v packet \<Rightarrow> bool" where
  "surfaced p \<longleftrightarrow>
     packet_type p = PROGRESS \<or> packet_type p = DATA \<or> packet_type p = TOTALS \<or>
     packet_type p = EXTREMES"

text \<open>A packet that neither ends nor aborts the stream.\<close>

definition quiet :: "'v packet \<Rightarrow> bool" where
  "quiet p \<longleftrightarrow> packet_type p \<noteq> EXCEPTION \<and> packet_type p \<noteq> END_OF_STREAM"

text \<open>The connection after \<open>k\<close> more reads that leave \<open>rest\<close> in the script.\<close>

definition reads :: "nat \<Rightarrow> (raised + 'v packet) list \<Rightarrow> 'v connection \<Rightarrow> 'v connection" where
  "reads k rest c = c\<lparr>inbox := rest, calls := calls c @ replicate k ReceivePacket\<rparr>"

subsection \<open>Progress iteration\<close>

text \<open>
  The totals after one more progress update, as \<open>store_progress\<close> computes them; the
  totals after a list of updates; and the pairs returned along the way.
\<close>

definition plus_progress :: "progress \<Rightarrow> progress \<Rightarrow> progress" where
  "plus_progress t u =
     \<lparr>progress_rows = progress_rows t + progress_rows u,
      progress_bytes = progress_bytes t + progress_bytes u,
      progress_total_rows = progress_total_rows t + progress_total_rows u\<rparr>"

fun add_progress :: "progress \<Rightarrow> progress list \<Rightarrow> progress" where
  "add_progress t [] = t"
| "add_progress t (u # us) = add_progress (plus_progress t u) us"

fun running :: "progress \<Rightarrow> progress list \<Rightarrow> (int \<times> int) list" where
  "running t [] = []"
| "running t (u # us) =
     (progress_rows (plus_progress t u), progress_total_rows (plus_progress t u)) #
     running (plus_progress t u) us"

text \<open>
  The progress updates of a stream in arrival order (the \<open>progress\<close> attribute of the
  packets that reach the iterator and have one), and the packets routed to \<open>store\<close>.
\<close>

definition progress_updates :: "'v packet list \<Rightarrow> progress list" where
  "progress_updates ps = List.map_filter progress (filter surfaced ps)"

definition routed_to_store :: "'v packet list \<Rightarrow> 'v packet list" where
  "routed_to_store ps = filter (\<lambda>p. progress p = None) (filter surfaced ps)"

text \<open>
  The sums of the progress counters: the totals \<open>(\<Sum>r\<^sub>i, \<Sum>b\<^sub>i, \<Sum>t\<^sub>i)\<close>, and the running pairs
  \<open>(r\<^sub>0 + \<dots> + r\<^sub>k, t\<^sub>0 + \<dots> + t\<^sub>k)\<close> for \<open>k = 0, 1, \<dots>\<close>.
\<close>

definition sum_progress :: "progress list \<Rightarrow> progress" where
  "sum_progress us =
     \<lparr>progress_rows = sum_list (map progress_rows us),
      progress_bytes = sum_list (map progress_bytes us),
      progress_total_rows = sum_list (map progress_total_rows us)\<rparr>"

definition partial_sums :: "progress list \<Rightarrow> (int \<times> int) list" where
  "partial_sums us =
     map (\<lambda>k. (sum_list (map progress_rows (take (Suc k) us)),
               sum_list (map progress_total_rows (take (Suc k) us))))
       [0..<length us]"

subsection \<open>Streams that end\<close>

text \<open>
  Every block of the stream that carries rows has \<open>n\<close> columns: the condition under
  which column-major accumulation cannot run past the aggregate's columns.
\<close>

definition same_width :: "nat \<Rightarrow> 'v packet list \<Rightarrow> bool" where
  "same_width n ps =
     list_all (\<lambda>p. case block p of
                     None \<Rightarrow> True
                   | Some b \<Rightarrow> rows b = 0 \<or> length (get_columns b) = n) ps"

text \<open>The number of \<open>disconnect()\<close> calls in the log.\<close>

definition disconnects :: "'v connection \<Rightarrow> nat" where
  "disconnects c = length (filter (\<lambda>k. case k of Disconnect \<Rightarrow> True | _ \<Rightarrow> False) (calls c))"

text \<open>What \<open>get_result\<close> returns from an accumulator.\<close>

definition result_of :: "('v, 'z) query_result_scheme \<Rightarrow> 'v result" where
  "result_of self =
     (if with_column_types self then RowsWithTypes (data self) (columns_with_types self)
      else Rows (data self))"

text \<open>Example: a Progress packet with the given counters.\<close>

definition progress_packet :: "int \<Rightarrow> int \<Rightarrow> int \<Rightarrow> int packet" where
  "progress_packet r b t =
     \<lparr>packet_type = PROGRESS, block = None,
      progress = Some \<lparr>progress_rows = r, progress_bytes = b, progress_total_rows = t\<rparr>,
      exception = None\<rparr>"

text \<open>
  An example stream: a progress update, a block of two rows, a packet of another kind
  (tag 6), a second progress update and a block of one row.
\<close>

definition ex_stream :: "int packet list" where
  "ex_stream =
     [progress_packet 2 16 3, data_packet ex_block1, plain_packet (OTHER 6),
      progress_packet 1 8 0, data_packet ex_block2]"

subsection \<open>execute\<close>

text \<open>
  The settings that \<open>execute\<close> merges for the call, and the connection as
  \<open>force_connect()\<close> leaves it.
\<close>

definition query_settings :: "'v client \<Rightarrow> settings option \<Rightarrow> settings" where
  "query_settings self st = settings self ++ (case st of None \<Rightarrow> Map.empty | Some s \<Rightarrow> s)"

definition established :: "'v client \<Rightarrow> settings option \<Rightarrow> 'v connection" where
  "established self st =
     snd (connection_force_connect ((connection self)\<lparr>context_settings := query_settings self st\<rparr>))"

text \<open>Example: a client that has not connected yet, with a given script of reads.\<close>

definition idle_client :: "(raised + int packet) list \<Rightarrow> int client" where
  "idle_client packets = \<lparr>settings = Map.empty, connection = scripted 2 packets []\<rparr>"

section \<open>Row-major and column-major accumulation\<close>

lemma length_transposed:
  "cs \<noteq> [] \<Longrightarrow> list_all (\<lambda>c. length c = r) cs \<Longrightarrow> length (transposed cs) = r"
  by (induction cs rule: transposed.induct) auto

lemma transposed_append:
  "length cs = length ds \<Longrightarrow> list_all (\<lambda>c. length c = r) cs \<Longrightarrow>
   transposed (map2 (@) cs ds) = transposed cs @ transposed ds"
proof (induction cs ds rule: list_induct2)
  case Nil
  then show ?case by simp
next
  case (Cons c cs d ds)
  show ?case
  proof (cases cs)
    case Nil
    with Cons.hyps show ?thesis by simp
  next
    case (Cons c' cs')
    with Cons.hyps obtain d' ds' where ds: "ds = d' # ds'"
      by (cases ds) auto
    from Cons.prems Cons have len: "length (transposed cs) = length c"
      using length_transposed[of cs r] by simp
    from Cons.IH Cons.prems have ih: "transposed (map2 (@) cs ds) = transposed cs @ transposed ds"
      by simp
    have "transposed (map2 (@) (c # cs) (d # ds)) = map2 (#) (c @ d) (transposed (map2 (@) cs ds))"
      using Cons ds by simp
    also have "\<dots> = map2 (#) (c @ d) (transposed cs @ transposed ds)"
      by (simp only: ih)
    also have "\<dots> = map2 (#) c (transposed cs) @ map2 (#) d (transposed ds)"
      using len by simp
    also have "\<dots> = transposed (c # cs) @ transposed (d # ds)"
      using Cons ds by simp
    finally show ?thesis .
  qed
qed

lemma extend_columns_same_length:
  "length ds = length cs \<Longrightarrow> extend_columns ds cs = Inr (map2 (@) ds cs)"
  by (induction ds cs rule: list_induct2) auto

lemma list_all_length_append:
  "length ds = length cs \<Longrightarrow> list_all (\<lambda>c. length c = r) ds \<Longrightarrow>
   list_all (\<lambda>c. length c = r') cs \<Longrightarrow> list_all (\<lambda>c. length c = r + r') (map2 (@) ds cs)"
  by (induction ds cs rule: list_induct2) auto

lemma store_in_step:
  assumes "in_step n qc qr" and "data_bearing n p"
  shows "\<exists>qc' qr'. store qc p = Inr qc' \<and> store qr p = Inr qr' \<and> in_step n qc' qr' \<and>
           data qr' = data qr @ get_rows (the (block p))"
proof -
  from assms(2) obtain b where b: "block p = Some b" "rectangular b" "0 < rows b"
    "length (get_columns b) = n"
    by (auto simp: data_bearing_def split: option.splits)
  from b have cols: "get_columns b \<noteq> []"
    by (auto simp: rectangular_def)
  from b have tr: "transposed (get_columns b) = get_rows b" "length (get_rows b) = rows b"
    "list_all (\<lambda>c. length c = rows b) (get_columns b)"
    by (auto simp: rectangular_def)
  from assms(1) have modes: "columnar qc" "\<not> columnar qr"
    by (auto simp: in_step_def)
  have row: "store qr p = Inr (qr\<lparr>data := data qr @ get_rows b\<rparr>)"
    using b modes by (simp add: store_def)
  show ?thesis
  proof (cases "data qc = []")
    case True
    with assms(1) have "data qr = []"
      by (auto simp: in_step_def)
    moreover have "store qc p = Inr (qc\<lparr>data := data qc @ get_columns b\<rparr>)"
      using b modes True by (simp add: store_def)
    ultimately show ?thesis
      using row True b cols tr modes by (simp add: in_step_def)
  next
    case False
    with assms(1) have inv: "length (data qc) = n"
      "list_all (\<lambda>c. length c = length (data qr)) (data qc)" "transposed (data qc) = data qr"
      by (auto simp: in_step_def)
    from inv b have same: "length (data qc) = length (get_columns b)"
      by simp
    have "store qc p = Inr (qc\<lparr>data := map2 (@) (data qc) (get_columns b)\<rparr>)"
      using b modes False extend_columns_same_length[OF same] by (simp add: store_def)
    moreover have "transposed (map2 (@) (data qc) (get_columns b)) = data qr @ get_rows b"
      using transposed_append[OF same inv(2)] inv(3) tr(1) by simp
    moreover have "list_all (\<lambda>c. length c = length (data qr) + rows b)
        (map2 (@) (data qc) (get_columns b))"
      using list_all_length_append[OF same inv(2) tr(3)] .
    moreover have "map2 (@) (data qc) (get_columns b) \<noteq> []"
      using False cols by (cases "data qc"; cases "get_columns b") auto
    ultimately show ?thesis
      using row b inv same tr modes by (simp add: in_step_def)
  qed
qed

lemma store_all_in_step:
  "in_step n qc qr \<Longrightarrow> list_all (data_bearing n) ps \<Longrightarrow>
   \<exists>qc' qr'. store_all qc ps = Inr qc' \<and> store_all qr ps = Inr qr' \<and> in_step n qc' qr' \<and>
     data qr' = data qr @ concat (map (\<lambda>p. get_rows (the (block p))) ps)"
proof (induction ps arbitrary: qc qr)
  case Nil
  then show ?case by simp
next
  case (Cons p ps)
  from Cons.prems obtain qc1 qr1 where 1: "store qc p = Inr qc1" "store qr p = Inr qr1"
    "in_step n qc1 qr1" "data qr1 = data qr @ get_rows (the (block p))"
    using store_in_step[of n qc qr p] by auto
  from Cons.IH[OF 1(3)] Cons.prems obtain qc' qr' where 2: "store_all qc1 ps = Inr qc'"
    "store_all qr1 ps = Inr qr'" "in_step n qc' qr'"
    "data qr' = data qr1 @ concat (map (\<lambda>p. get_rows (the (block p))) ps)"
    by auto
  with 1 show ?case by simp
qed

text \<open>
  C1. For every finite stream of data-bearing packets whose blocks carry at least one row
  and share the same column count, accumulating with \<open>columnar=True\<close> and reading the
  aggregate column-wise (\<open>transposed\<close>) gives the same rows, in the same order, as
  accumulating the same stream with \<open>columnar=False\<close>: the rows of the blocks in arrival
  order. Neither accumulation raises.
\<close>

theorem store_transposition_equivalence:
  assumes "list_all (data_bearing n) ps"
  shows "\<exists>qc qr. store_all (QueryResult wct True) ps = Inr qc \<and>
           store_all (QueryResult wct False) ps = Inr qr \<and>
           transposed (data qc) = data qr \<and>
           data qr = concat (map (\<lambda>p. get_rows (the (block p))) ps)"
proof -
  have "in_step n (QueryResult wct True :: 'a query_result) (QueryResult wct False :: 'a query_result)"
    by (simp add: in_step_def QueryResult_def)
  from store_all_in_step[OF this assms] show ?thesis
    by (auto simp: in_step_def QueryResult_def)
qed

theorem store_transposition_equivalence_witness:
  "list_all (data_bearing 2) [data_packet ex_block1, data_packet ex_block2] \<and>
   (\<exists>qc qr. store_all (QueryResult False True) [data_packet ex_block1, data_packet ex_block2] = Inr qc \<and>
      store_all (QueryResult False False) [data_packet ex_block1, data_packet ex_block2] = Inr qr \<and>
      transposed (data qc) = data qr \<and> data qr = [[1, 10], [2, 20], [3, 30]])"
proof -
  have h: "list_all (data_bearing 2) [data_packet ex_block1, data_packet ex_block2]"
    by (simp add: data_bearing_def data_packet_def ex_block1_def ex_block2_def rectangular_def)
  from store_transposition_equivalence[OF h, of False] h show ?thesis
    by (simp add: data_packet_def ex_block1_def ex_block2_def)
qed

section \<open>Header capture\<close>

lemma store_columns_with_types:
  "store self p = Inr self' \<Longrightarrow>
   columns_with_types self' =
     (if columns_with_types self \<noteq> [] then columns_with_types self
      else first_schema [p])"
  by (auto simp: store_def first_schema_def split: option.splits if_splits sum.splits)

lemma first_schema_Cons:
  "first_schema (p # ps) = (if first_schema [p] \<noteq> [] then first_schema [p] else first_schema ps)"
  by (auto simp: first_schema_def split: option.splits list.splits)

lemma store_all_columns_with_types:
  "store_all self ps = Inr self' \<Longrightarrow>
   columns_with_types self' =
     (if columns_with_types self \<noteq> [] then columns_with_types self else first_schema ps)"
proof (induction ps arbitrary: self)
  case Nil
  then show ?case by (simp add: first_schema_def)
next
  case (Cons p ps)
  from Cons.prems obtain s1 where s1: "store self p = Inr s1" "store_all s1 ps = Inr self'"
    by (auto split: sum.splits)
  from Cons.IH[OF s1(2)] store_columns_with_types[OF s1(1)] show ?case
    by (simp add: first_schema_Cons[of p ps])
qed

lemma store_zero_rows:
  "block p = Some b \<Longrightarrow> rows b = 0 \<Longrightarrow>
   \<exists>self'. store self p = Inr self' \<and> data self' = data self \<and>
     (columns_with_types self \<noteq> [] \<longrightarrow> self' = self)"
  by (simp add: store_def)

text \<open>
  C6, as stated, fails: a first zero-row block whose schema is empty leaves the
  accumulator's schema empty, and the next zero-row block's schema is captured.
\<close>

theorem header_capture_first_wins_counterexample:
  "header_schemas [header_packet [], header_packet [(''x'', ''UInt8'')]] = [[], [(''x'', ''UInt8'')]] \<and>
   map_sum id columns_with_types
     (store_all (QueryResult False False) [header_packet [], header_packet [(''x'', ''UInt8'')]]) =
   Inr [(''x'', ''UInt8'')]"
  by (simp add: header_packet_def store_def QueryResult_def)

text \<open>
  C6, amended. After a fresh accumulator has processed a stream, its
  \<open>columns_with_types\<close> is the schema of the first zero-row block whose schema is not
  empty (empty when there is none). A zero-row block never changes the accumulated data,
  and changes nothing at all once a non-empty schema has been captured.
\<close>

theorem header_capture_first_nonempty:
  assumes "store_all (QueryResult wct col) ps = Inr q"
  shows "columns_with_types q = first_schema ps \<and>
         (\<forall>self p b. block p = Some b \<and> rows b = 0 \<longrightarrow>
            (\<exists>self' :: 'a query_result. store self p = Inr self' \<and> data self' = data self \<and>
               (columns_with_types self \<noteq> [] \<longrightarrow> self' = self)))"
  using store_all_columns_with_types[OF assms] store_zero_rows
  by (auto simp: QueryResult_def)

theorem header_capture_first_nonempty_witness:
  "store_all (QueryResult False False)
     [header_packet [], header_packet [(''x'', ''UInt8'')], header_packet [(''y'', ''String'')]] =
   Inr \<lparr>packet_generator = Suspended, with_column_types = False, data = [],
         columns_with_types = [(''x'', ''UInt8'')], columnar = False\<rparr> \<and>
   first_schema
     [header_packet [], header_packet [(''x'', ''UInt8'')], header_packet [(''y'', ''String'')]] =
   [(''x'', ''UInt8'')]"
proof -
  have h: "store_all (QueryResult False False)
     [header_packet [], header_packet [(''x'', ''UInt8'')], header_packet [(''y'', ''String'')]] =
   Inr \<lparr>packet_generator = Suspended, with_column_types = False, data = [],
         columns_with_types = [(''x'', ''UInt8'')], columnar = False\<rparr>"
    by (simp add: header_packet_def store_def QueryResult_def)
  have "columns_with_types \<lparr>packet_generator = Suspended, with_column_types = False,
      data = ([] :: int list list), columns_with_types = [(''x'', ''UInt8'')], columnar = False\<rparr> =
    first_schema
     [header_packet [], header_packet [(''x'', ''UInt8'')], header_packet [(''y'', ''String'')]]"
    using header_capture_first_nonempty[OF h] by (rule conjunct1)
  then have "first_schema
     [header_packet [], header_packet [(''x'', ''UInt8'')], header_packet [(''y'', ''String'')]] =
   [(''x'', ''UInt8'')]"
    by simp
  with h show ?thesis
    by (rule conjI)
qed

section \<open>The insert pipeline\<close>

lemma chunks_Nil: "chunks [] n = []"
  by (simp add: chunks.simps[of "[]" n])

lemma chunks_Cons:
  "0 < n \<Longrightarrow> seq \<noteq> [] \<Longrightarrow> chunks seq n = take n seq # chunks (drop n seq) n"
  by (simp add: chunks.simps[of seq n])

lemma concat_chunks: "0 < n \<Longrightarrow> concat (chunks seq n) = seq"
proof (induction seq n rule: chunks.induct)
  case (1 seq n)
  then show ?case
    by (cases "seq = []") (simp_all add: chunks_Nil chunks_Cons)
qed

lemma map_length_chunks:
  "0 < n \<Longrightarrow>
   map length (chunks seq n) =
     replicate (length seq div n) n @ (if length seq mod n = 0 then [] else [length seq mod n])"
proof (induction seq n rule: chunks.induct)
  case (1 seq n)
  show ?case
  proof (cases "seq = []")
    case True
    then show ?thesis by (simp add: chunks_Nil)
  next
    case False
    show ?thesis
    proof (cases "length seq < n")
      case True
      with False "1.prems" show ?thesis
        by (simp add: chunks_Cons chunks_Nil)
    next
      case ge: False
      then have d: "length seq div n = Suc ((length seq - n) div n)"
        using "1.prems" by (simp add: le_div_geq)
      from ge have m: "length seq mod n = (length seq - n) mod n"
        by (simp add: le_mod_geq)
      from ge have t: "min (length seq) n = n" by simp
      from "1.IH" False "1.prems" have ih: "map length (chunks (drop n seq) n) =
          replicate ((length seq - n) div n) n @
          (if (length seq - n) mod n = 0 then [] else [(length seq - n) mod n])"
        by simp
      show ?thesis
        using False "1.prems" by (simp add: chunks_Cons ih d m t)
    qed
  qed
qed

lemma ceil_div_eq:
  assumes n: "0 < n"
  shows "ceil_div N n = N div n + (if N mod n = 0 then 0 else 1)"
proof -
  define q r where "q = N div n" and "r = N mod n"
  then have N: "N = q * n + r" and r: "r < n"
    using n by auto
  show ?thesis
  proof (cases "r = 0")
    case True
    with N n have "N + n - 1 = q * n + (n - 1)" by simp
    moreover have "(q * n + (n - 1)) div n = q"
      using div_mult_self3[of n q "n - 1"] n by simp
    ultimately show ?thesis
      using True q_def r_def by (simp add: ceil_div_def)
  next
    case False
    with N have "N + n - 1 = Suc q * n + (r - 1)" by simp
    moreover have "(Suc q * n + (r - 1)) div n = Suc q"
      using div_mult_self3[of n "Suc q" "r - 1"] n r by simp
    ultimately show ?thesis
      using False q_def r_def by (simp add: ceil_div_def)
  qed
qed

lemma length_chunks: "0 < n \<Longrightarrow> length (chunks seq n) = ceil_div (length seq) n"
proof -
  assume n: "0 < n"
  have "length (chunks seq n) = length (map length (chunks seq n))" by simp
  also have "\<dots> = length seq div n + (if length seq mod n = 0 then 0 else 1)"
    by (simp add: map_length_chunks[OF n])
  finally show ?thesis
    by (simp add: ceil_div_eq[OF n])
qed

lemma transport_write_no_faults:
  "faults c = [] \<Longrightarrow> transport_write k c = (Inr (), logged k c)"
  by (simp add: transport_write_def)

lemma logged_simps [simp]:
  "faults (logged k c) = faults c" "inbox (logged k c) = inbox c"
  "calls (logged k c) = calls c @ [k]" "connected (logged k c) = connected c"
  "insert_block_size (logged k c) = insert_block_size c"
  by (simp_all add: logged_def)

lemma send_chunks_no_faults:
  "faults c = [] \<Longrightarrow> list_all (\<lambda>chunk. block_init E cols chunk tc = None) chs \<Longrightarrow>
   send_chunks E c cols chs tc =
     (Inr (), c\<lparr>calls := calls c @ map (\<lambda>chunk. SendData cols chunk tc) chs\<rparr>)"
proof (induction chs arbitrary: c)
  case Nil
  then show ?case by simp
next
  case (Cons chunk chs)
  have "send_chunks E c cols (chunk # chs) tc = send_chunks E (logged (SendData cols chunk tc) c) cols chs tc"
    using Cons.prems by (simp add: connection_send_data_def transport_write_no_faults)
  also have "\<dots> = (Inr (), (logged (SendData cols chunk tc) c)
      \<lparr>calls := calls (logged (SendData cols chunk tc) c) @ map (\<lambda>chunk. SendData cols chunk tc) chs\<rparr>)"
    using Cons.prems by (intro Cons.IH) simp_all
  finally show ?case
    by (simp add: logged_def)
qed

text \<open>
  C2. With a block size \<open>S > 0\<close>, a transport whose writes succeed and rows that
  \<open>Block\<close> accepts, \<open>send_data\<close> returns normally after writing one data block per chunk
  of the row sequence, in order, and then exactly one empty block. There are
  \<open>ceil(N / S)\<close> chunks, each of \<open>S\<close> rows except that \<open>N mod S\<close> rows, when that is not
  zero, form the last one, and the chunks concatenated in send order are the row
  sequence.
\<close>

theorem send_data_chunking:
  assumes "0 < insert_block_size c" and "faults c = []"
    and "list_all (\<lambda>chunk. block_init E (block_columns_with_types sample_block) chunk tc = None)
           (chunks rows_data (insert_block_size c))"
  shows "send_data E c sample_block rows_data tc =
           (Inr (), c\<lparr>calls := calls c @
              map (\<lambda>chunk. SendData (block_columns_with_types sample_block) chunk tc)
                (chunks rows_data (insert_block_size c)) @
              [SendData [] [] False]\<rparr>) \<and>
         length (chunks rows_data (insert_block_size c)) =
           ceil_div (length rows_data) (insert_block_size c) \<and>
         map length (chunks rows_data (insert_block_size c)) =
           replicate (length rows_data div insert_block_size c) (insert_block_size c) @
           (if length rows_data mod insert_block_size c = 0 then []
            else [length rows_data mod insert_block_size c]) \<and>
         concat (chunks rows_data (insert_block_size c)) = rows_data"
proof -
  have "send_data E c sample_block rows_data tc =
      (Inr (), c\<lparr>calls := calls c @
         map (\<lambda>chunk. SendData (block_columns_with_types sample_block) chunk tc)
           (chunks rows_data (insert_block_size c)) @
         [SendData [] [] False]\<rparr>)"
    using assms(2)
    by (simp add: send_data_def send_chunks_no_faults[OF assms(2,3)] connection_send_data_def
        transport_write_no_faults logged_def)
  then show ?thesis
    using assms(1) by (simp add: length_chunks map_length_chunks concat_chunks)
qed

theorem send_data_chunking_witness:
  "0 < insert_block_size (scripted 2 [] []) \<and> faults (scripted 2 [] []) = [] \<and>
   send_data lenient (scripted 2 [] []) sample [[1], [2], [3], [4], [5]] False =
     (Inr (), (scripted 2 [] [])\<lparr>calls :=
        [SendData [(''n'', ''Int32'')] [[1], [2]] False,
         SendData [(''n'', ''Int32'')] [[3], [4]] False,
         SendData [(''n'', ''Int32'')] [[5]] False,
         SendData [] [] False]\<rparr>) \<and>
   ceil_div 5 2 = 3"
proof -
  have c: "chunks [[1], [2], [3], [4], [5::int]] 2 = [[[1], [2]], [[3], [4]], [[5]]]"
    by (simp add: chunks_Cons chunks_Nil)
  have h1: "0 < insert_block_size (scripted 2 [] [])"
    and h2: "faults (scripted 2 [] []) = []"
    and h3: "list_all (\<lambda>chunk. block_init lenient (block_columns_with_types sample) chunk False = None)
       (chunks [[1], [2], [3], [4], [5]] (insert_block_size (scripted 2 [] [])))"
    by (simp_all add: scripted_def lenient_def list_all_iff)
  from send_data_chunking[OF h1 h2 h3] c h1 h2 show ?thesis
    by (simp add: scripted_def sample_def ceil_div_def)
qed

lemma connection_receive_packet_Cons:
  "inbox c = x # rest \<Longrightarrow>
   connection_receive_packet c = (x, logged ReceivePacket (c\<lparr>inbox := rest\<rparr>))"
  by (simp add: connection_receive_packet_def)

lemma send_then_receive_sample:
  assumes "faults c = []" and "inbox c = x # rest"
  shows "connection_send_query c q qid st = (Inr (), logged (SendQuery q qid st) c)"
    and "connection_send_external_tables (logged (SendQuery q qid st) c) ext tc =
           (Inr (), logged (SendExternalTables ext tc) (logged (SendQuery q qid st) c))"
    and "connection_receive_packet (logged (SendExternalTables ext tc) (logged (SendQuery q qid st) c)) =
           (x, c\<lparr>inbox := rest,
                 calls := calls c @ [SendQuery q qid st, SendExternalTables ext tc, ReceivePacket]\<rparr>)"
  using assms
  by (simp_all add: connection_send_query_def connection_send_external_tables_def
      transport_write_no_faults connection_receive_packet_def logged_def)

text \<open>
  C8. When the writes of the insert statement succeed and the first packet read after
  them is not a Data packet, \<open>process_insert_query\<close> raises: the embedded error of an
  exception packet, otherwise \<open>UnexpectedPacketFromServerError\<close> naming \<open>Data\<close> as
  expected and the received kind. The only calls made on the connection are the two
  writes of the statement and that one read: no data block and no sentinel block is sent.
\<close>

theorem insert_rejects_non_data_sample:
  assumes "faults c = []" and "inbox c = Inr p # rest" and "packet_type p \<noteq> DATA"
  shows "process_insert_query E c q rows_data ext qid st tc =
           (Inl (if packet_type p = EXCEPTION then raise_exception p
                 else Exception (UnexpectedPacketFromServerError
                        (unexpected_packet_message ''Data'' (packet_type p)))),
            c\<lparr>inbox := rest,
              calls := calls c @ [SendQuery q qid st, SendExternalTables ext tc, ReceivePacket]\<rparr>) \<and>
         (exception p = Some e \<longrightarrow> raise_exception p = Exception e) \<and>
         filter is_send_data
           (calls c @ [SendQuery q qid st, SendExternalTables ext tc, ReceivePacket]) =
         filter is_send_data (calls c)"
  using assms(3) send_then_receive_sample[OF assms(1,2)]
  by (simp add: process_insert_query_def receive_sample_block_def raise_exception_def
      is_send_data_def)

theorem insert_rejects_non_data_sample_witness:
  "process_insert_query lenient
     (scripted 2 [Inr (exception_packet (ServerException 60 ''Table does not exist''))] [])
     ''INSERT INTO t VALUES'' [[1], [2], [3]] None None Map.empty False =
     (Inl (Exception (ServerException 60 ''Table does not exist'')),
      (scripted 2 [] [])\<lparr>calls :=
         [SendQuery ''INSERT INTO t VALUES'' None Map.empty, SendExternalTables None False,
          ReceivePacket]\<rparr>) \<and>
   process_insert_query lenient (scripted 2 [Inr (plain_packet END_OF_STREAM)] [])
     ''INSERT INTO t VALUES'' [[1], [2], [3]] None None Map.empty False =
     (Inl (Exception (UnexpectedPacketFromServerError (''Data'', END_OF_STREAM))),
      (scripted 2 [] [])\<lparr>calls :=
         [SendQuery ''INSERT INTO t VALUES'' None Map.empty, SendExternalTables None False,
          ReceivePacket]\<rparr>)"
proof -
  have a: "faults (scripted 2 [Inr (exception_packet (ServerException 60 ''Table does not exist''))] []) = []"
    "inbox (scripted 2 [Inr (exception_packet (ServerException 60 ''Table does not exist''))] []) =
       [Inr (exception_packet (ServerException 60 ''Table does not exist''))]"
    "packet_type (exception_packet (ServerException 60 ''Table does not exist'')) \<noteq> DATA"
    by (simp_all add: scripted_def exception_packet_def)
  have b: "faults (scripted 2 [Inr (plain_packet END_OF_STREAM)] []) = []"
    "inbox (scripted 2 [Inr (plain_packet END_OF_STREAM)] []) = [Inr (plain_packet END_OF_STREAM)]"
    "packet_type (plain_packet END_OF_STREAM) \<noteq> DATA"
    by (simp_all add: scripted_def plain_packet_def)
  from insert_rejects_non_data_sample[OF a, of lenient "''INSERT INTO t VALUES''" "[[1], [2], [3]]"
      None None Map.empty False]
    insert_rejects_non_data_sample[OF b, of lenient "''INSERT INTO t VALUES''" "[[1], [2], [3]]"
      None None Map.empty False]
  show ?thesis
    by (simp add: scripted_def exception_packet_def plain_packet_def raise_exception_def
        unexpected_packet_message_def)
qed

text \<open>
  C10. An insert of no rows (writes succeed): once the sample block
  has been received the pipeline sends no data block, sends exactly one empty block, and
  reads one more packet; it raises that read's transport error or the packet's embedded
  exception, and returns normally otherwise.
\<close>

theorem insert_of_no_rows:
  assumes "faults c = []"
    and "inbox c = Inr p # x # rest" and "packet_type p = DATA" and "block p = Some sample_block"
  shows "process_insert_query E c q [] ext qid st tc =
           ((case x of
               Inl e \<Rightarrow> Inl e
             | Inr acknowledgement \<Rightarrow>
                 (case exception acknowledgement of
                    Some e \<Rightarrow> Inl (Exception e)
                  | None \<Rightarrow> Inr NoResult)),
            c\<lparr>inbox := rest,
              calls := calls c @
                [SendQuery q qid st, SendExternalTables ext tc, ReceivePacket,
                 SendData [] [] False, ReceivePacket]\<rparr>)"
proof -
  let ?c3 = "c\<lparr>inbox := x # rest,
      calls := calls c @ [SendQuery q qid st, SendExternalTables ext tc, ReceivePacket]\<rparr>"
  have sample_read: "receive_sample_block
      (logged (SendExternalTables ext tc) (logged (SendQuery q qid st) c)) = (Inr (Some sample_block), ?c3)"
    using send_then_receive_sample(3)[OF assms(1,2)] assms(3,4)
    by (simp add: receive_sample_block_def)
  have sent: "send_data E ?c3 sample_block [] tc = (Inr (), ?c3\<lparr>calls := calls ?c3 @ [SendData [] [] False]\<rparr>)"
    using assms(1)
    by (simp add: send_data_def chunks_Nil connection_send_data_def transport_write_no_faults logged_def)
  have ack: "connection_receive_packet (?c3\<lparr>calls := calls ?c3 @ [SendData [] [] False]\<rparr>) =
      (x, c\<lparr>inbox := rest,
            calls := calls c @
              [SendQuery q qid st, SendExternalTables ext tc, ReceivePacket,
               SendData [] [] False, ReceivePacket]\<rparr>)"
    by (simp add: connection_receive_packet_def logged_def)
  show ?thesis
    using send_then_receive_sample(1,2)[OF assms(1,2)] sample_read sent ack
    by (simp add: process_insert_query_def split: sum.splits option.splits)
qed

theorem insert_of_no_rows_witness:
  "process_insert_query lenient
     (scripted 2 [Inr (plain_packet DATA\<lparr>block := Some sample\<rparr>), Inr (plain_packet END_OF_STREAM)] [])
     ''INSERT INTO t VALUES'' [] None None Map.empty False =
     (Inr NoResult,
      (scripted 2 [] [])\<lparr>calls :=
         [SendQuery ''INSERT INTO t VALUES'' None Map.empty, SendExternalTables None False,
          ReceivePacket, SendData [] [] False, ReceivePacket]\<rparr>)"
proof -
  let ?c = "scripted 2 [Inr (plain_packet DATA\<lparr>block := Some sample\<rparr>), Inr (plain_packet END_OF_STREAM)] []"
  have h: "faults ?c = []"
    "inbox ?c = Inr (plain_packet DATA\<lparr>block := Some sample\<rparr>) # Inr (plain_packet END_OF_STREAM) # []"
    "packet_type (plain_packet DATA\<lparr>block := Some sample\<rparr>) = DATA"
    "block (plain_packet DATA\<lparr>block := Some sample\<rparr>) = Some sample"
    by (simp_all add: scripted_def plain_packet_def)
  from insert_of_no_rows[OF h, of lenient "''INSERT INTO t VALUES''" None None Map.empty False]
  show ?thesis
    by (simp add: scripted_def plain_packet_def)
qed

section \<open>Packet streams\<close>

lemma reads_simps [simp]:
  "inbox (reads k rest c) = rest"
  "calls (reads k rest c) = calls c @ replicate k ReceivePacket"
  "connected (reads k rest c) = connected c"
  "faults (reads k rest c) = faults c"
  by (simp_all add: reads_def)

lemma reads_0: "inbox c = rest \<Longrightarrow> reads 0 rest c = c"
  by (simp add: reads_def)

lemma reads_reads: "reads k rest (reads j rest' c) = reads (j + k) rest c"
  by (simp add: reads_def replicate_add)

lemma caught_simps [simp]:
  "caught (Exception x)" "\<not> caught KeyboardInterrupt" "\<not> caught SystemExit"
  "caught (raise_exception p)"
  by (simp_all add: caught_def raise_exception_def split: option.splits)

lemma body_yield:
  "inbox c = Inr p # rest \<Longrightarrow> surfaced p \<Longrightarrow> packet_generator_body c = (Yield p, reads 1 rest c)"
  by (subst packet_generator_body.simps)
    (auto simp: receive_packet_def connection_receive_packet_def surfaced_def reads_def logged_def)

lemma body_skip:
  "inbox c = Inr p # rest \<Longrightarrow> quiet p \<Longrightarrow> \<not> surfaced p \<Longrightarrow>
   packet_generator_body c = packet_generator_body (reads 1 rest c)"
  by (subst packet_generator_body.simps)
    (auto simp: receive_packet_def connection_receive_packet_def surfaced_def quiet_def
      reads_def logged_def)

lemma body_end_of_stream:
  "inbox c = Inr p # rest \<Longrightarrow> packet_type p = END_OF_STREAM \<Longrightarrow>
   packet_generator_body c = (StopIteration, reads 1 rest c)"
  by (subst packet_generator_body.simps)
    (auto simp: receive_packet_def connection_receive_packet_def reads_def logged_def)

lemma body_exception:
  "inbox c = Inr p # rest \<Longrightarrow> packet_type p = EXCEPTION \<Longrightarrow>
   packet_generator_body c = (Raise (raise_exception p), connection_disconnect (reads 1 rest c))"
  by (subst packet_generator_body.simps)
    (auto simp: receive_packet_def connection_receive_packet_def reads_def logged_def)


lemma body_yields_surfaced:
  "packet_generator_body c = (Yield p, c') \<Longrightarrow> surfaced p"
proof (induction c rule: packet_generator_body.induct)
  case (1 c)
  obtain r c1 where rc: "receive_packet c = (r, c1)"
    by (cases "receive_packet c")
  show ?case
  proof (cases r)
    case (Inl e)
    with rc "1.prems" show ?thesis
      by (simp add: packet_generator_body.simps[of c])
  next
    case (Inr x)
    show ?thesis
    proof (cases x)
      case (Packet q)
      with Inr rc "1.prems" have "q = p"
        by (simp add: packet_generator_body.simps[of c])
      with Packet Inr rc show ?thesis
        by (auto simp: receive_packet_def surfaced_def split: prod.splits sum.splits if_splits)
    next
      case PyFalse
      with Inr rc "1.prems" show ?thesis
        by (simp add: packet_generator_body.simps[of c])
    next
      case PyTrue
      with Inr rc "1.prems" have "packet_generator_body c1 = (Yield p, c')"
        by (simp add: packet_generator_body.simps[of c])
      with "1.IH"[OF rc[symmetric] Inr PyTrue] show ?thesis
        by simp
    qed
  qed
qed

lemma next_yields_surfaced:
  "packet_generator_next g c = (Yield p, g', c') \<Longrightarrow> surfaced p"
  by (auto simp: packet_generator_next_def split: generator.splits prod.splits step.splits
      dest: body_yields_surfaced)

lemma store_keeps_generator:
  "store self p = Inr self' \<Longrightarrow> packet_generator self' = packet_generator self"
  by (auto simp: store_def split: option.splits if_splits sum.splits)

lemma same_generator: "packet_generator self = g \<Longrightarrow> self\<lparr>packet_generator := g\<rparr> = self"
  by auto

lemma get_result_loop_yield:
  assumes "packet_generator self = Suspended" and "inbox c = Inr p # rest" and "surfaced p"
    and "store self p = Inr self'"
  shows "get_result_loop self c = get_result_loop self' (reads 1 rest c)"
  using assms
  by (subst get_result_loop.simps)
    (simp add: packet_generator_next_def body_yield same_generator)

lemma get_result_loop_skip:
  assumes "packet_generator self = Suspended" and "inbox c = Inr p # rest" and "quiet p"
    and "\<not> surfaced p"
  shows "get_result_loop self c = get_result_loop self (reads 1 rest c)"
  using assms
  by (subst get_result_loop.simps, subst (2) get_result_loop.simps)
    (simp add: packet_generator_next_def body_skip)

lemma get_result_loop_prefix:
  "packet_generator self = Suspended \<Longrightarrow> inbox c = map Inr ps @ rest \<Longrightarrow> list_all quiet ps \<Longrightarrow>
   store_all self (filter surfaced ps) = Inr self' \<Longrightarrow>
   get_result_loop self c = get_result_loop self' (reads (length ps) rest c)"
proof (induction ps arbitrary: self c)
  case Nil
  then show ?case by (simp add: reads_0)
next
  case (Cons p ps)
  from Cons.prems have inbox: "inbox c = Inr p # (map Inr ps @ rest)" and q: "quiet p"
    and qs: "list_all quiet ps"
    by simp_all
  show ?case
  proof (cases "surfaced p")
    case True
    with Cons.prems obtain s1 where s1: "store self p = Inr s1"
      "store_all s1 (filter surfaced ps) = Inr self'"
      by (auto split: sum.splits)
    from s1(1) Cons.prems(1) have g: "packet_generator s1 = Suspended"
      by (simp add: store_keeps_generator)
    have "get_result_loop self c = get_result_loop s1 (reads 1 (map Inr ps @ rest) c)"
      using get_result_loop_yield[OF Cons.prems(1) inbox True s1(1)] .
    also have "\<dots> = get_result_loop self' (reads (length ps) rest (reads 1 (map Inr ps @ rest) c))"
      by (rule Cons.IH[OF g _ qs s1(2)]) simp
    finally show ?thesis
      by (simp add: reads_reads)
  next
    case False
    with Cons.prems have s: "store_all self (filter surfaced ps) = Inr self'"
      by simp
    have "get_result_loop self c = get_result_loop self (reads 1 (map Inr ps @ rest) c)"
      using get_result_loop_skip[OF Cons.prems(1) inbox q False] .
    also have "\<dots> = get_result_loop self' (reads (length ps) rest (reads 1 (map Inr ps @ rest) c))"
      by (rule Cons.IH[OF Cons.prems(1) _ qs s]) simp
    finally show ?thesis
      by (simp add: reads_reads)
  qed
qed

lemma get_result_loop_end_of_stream:
  assumes "packet_generator self = Suspended" and "inbox c = Inr x # rest"
    and "packet_type x = END_OF_STREAM"
  shows "get_result_loop self c = (Inr (), self\<lparr>packet_generator := Finished\<rparr>, reads 1 rest c)"
  using assms
  by (subst get_result_loop.simps) (simp add: packet_generator_next_def body_end_of_stream)

lemma get_result_loop_exception:
  assumes "packet_generator self = Suspended" and "inbox c = Inr x # rest"
    and "packet_type x = EXCEPTION"
  shows "get_result_loop self c =
    (Inl (raise_exception x), self\<lparr>packet_generator := Finished\<rparr>,
     connection_disconnect (reads 1 rest c))"
  using assms
  by (subst get_result_loop.simps) (simp add: packet_generator_next_def body_exception)


lemma get_result_loop_finished:
  "packet_generator self = Finished \<Longrightarrow> get_result_loop self c = (Inr (), self, c)"
  by (subst get_result_loop.simps) (simp add: packet_generator_next_def same_generator)

section \<open>Progress iteration\<close>

lemma add_progress_eq: "add_progress t us = plus_progress t (sum_progress us)"
  by (induction us arbitrary: t) (simp_all add: plus_progress_def sum_progress_def)

lemma running_eq:
  "running t us =
     map (\<lambda>k. (progress_rows t + sum_list (map progress_rows (take (Suc k) us)),
               progress_total_rows t + sum_list (map progress_total_rows (take (Suc k) us))))
       [0..<length us]"
proof (induction us arbitrary: t)
  case Nil
  then show ?case by simp
next
  case (Cons u us)
  show ?case
    by (simp add: Cons.IH map_upt_Suc plus_progress_def add.assoc del: upt_Suc)
qed

lemma running_Progress: "running Progress us = partial_sums us"
  by (simp add: running_eq partial_sums_def Progress_def)

lemma add_progress_Progress: "add_progress Progress us = sum_progress us"
  by (simp add: add_progress_eq plus_progress_def Progress_def sum_progress_def)

lemma store_progress_eq:
  "store_progress self u =
     ((progress_rows (plus_progress (progress_totals self) u),
       progress_total_rows (plus_progress (progress_totals self) u)),
      self\<lparr>progress_totals := plus_progress (progress_totals self) u\<rparr>)"
  by (simp add: store_progress_def plus_progress_def Let_def)

lemma store_keeps_totals:
  "store self p = Inr self' \<Longrightarrow> progress_totals self' = progress_totals self"
  by (auto simp: store_def split: option.splits if_splits sum.splits)

lemma store_totals_commute:
  "store self p = Inr self' \<Longrightarrow>
   store (self\<lparr>progress_totals := t\<rparr>) p = Inr (self'\<lparr>progress_totals := t\<rparr>)"
  by (auto simp: store_def split: option.splits if_splits sum.splits)

lemma store_all_totals_commute:
  "store_all self ps = Inr self' \<Longrightarrow>
   store_all (self\<lparr>progress_totals := t\<rparr>) ps = Inr (self'\<lparr>progress_totals := t\<rparr>)"
proof (induction ps arbitrary: self)
  case Nil
  then show ?case by simp
next
  case (Cons p ps)
  then obtain s1 where "store self p = Inr s1" "store_all s1 ps = Inr self'"
    by (auto split: sum.splits)
  with Cons.IH[of s1] show ?case
    by (simp add: store_totals_commute)
qed

lemma progress_next_progress:
  assumes "packet_generator self = Suspended" and "inbox c = Inr p # rest" and "surfaced p"
    and "progress p = Some u"
  shows "progress_next self c =
    (Yield (progress_rows (plus_progress (progress_totals self) u),
            progress_total_rows (plus_progress (progress_totals self) u)),
     self\<lparr>progress_totals := plus_progress (progress_totals self) u\<rparr>, reads 1 rest c)"
  using assms
  by (subst progress_next.simps)
    (simp add: packet_generator_next_def body_yield same_generator store_progress_eq)

lemma progress_next_store:
  assumes "packet_generator self = Suspended" and "inbox c = Inr p # rest" and "surfaced p"
    and "progress p = None" and "store self p = Inr self'"
  shows "progress_next self c = progress_next self' (reads 1 rest c)"
  using assms
  by (subst progress_next.simps)
    (simp add: packet_generator_next_def body_yield same_generator)

lemma progress_next_skip:
  assumes "packet_generator self = Suspended" and "inbox c = Inr p # rest" and "quiet p"
    and "\<not> surfaced p"
  shows "progress_next self c = progress_next self (reads 1 rest c)"
  using assms
  by (subst progress_next.simps, subst (2) progress_next.simps)
    (simp add: packet_generator_next_def body_skip)

lemma progress_next_end_of_stream:
  assumes "packet_generator self = Suspended" and "inbox c = Inr x # rest"
    and "packet_type x = END_OF_STREAM"
  shows "progress_next self c = (StopIteration, self\<lparr>packet_generator := Finished\<rparr>, reads 1 rest c)"
  using assms
  by (subst progress_next.simps) (simp add: packet_generator_next_def body_end_of_stream)

lemma progress_next_exception:
  assumes "packet_generator self = Suspended" and "inbox c = Inr x # rest"
    and "packet_type x = EXCEPTION"
  shows "progress_next self c =
    (Raise (raise_exception x), self\<lparr>packet_generator := Finished\<rparr>,
     connection_disconnect (reads 1 rest c))"
  using assms
  by (subst progress_next.simps) (simp add: packet_generator_next_def body_exception)

lemma progress_next_finished:
  "packet_generator self = Finished \<Longrightarrow> progress_next self c = (StopIteration, self, c)"
  by (subst progress_next.simps) (simp add: packet_generator_next_def same_generator)

lemma apfst_apfst_same: "apfst (apfst (\<lambda>a. a)) z = z"
  by (cases z) auto

lemma apfst_apfst_compose:
  "apfst (apfst f) (apfst (apfst g) z) = apfst (apfst (\<lambda>a. f (g a))) z"
  by (cases z) auto

lemma iterate_prefix:
  "packet_generator self = Suspended \<Longrightarrow> inbox c = map Inr ps @ rest \<Longrightarrow> list_all quiet ps \<Longrightarrow>
   store_all self (routed_to_store ps) = Inr self' \<Longrightarrow>
   iterate self c =
     apfst (apfst ((@) (running (progress_totals self) (progress_updates ps))))
       (iterate (self'\<lparr>progress_totals := add_progress (progress_totals self) (progress_updates ps)\<rparr>)
          (reads (length ps) rest c))"
proof (induction ps arbitrary: self c self')
  case Nil
  then show ?case
    by (simp add: reads_0 progress_updates_def routed_to_store_def apfst_apfst_same)
next
  case (Cons p ps)
  from Cons.prems have inbox: "inbox c = Inr p # (map Inr ps @ rest)" and q: "quiet p"
    and qs: "list_all quiet ps"
    by simp_all
  let ?c1 = "reads 1 (map Inr ps @ rest) c"
  have c1: "inbox ?c1 = map Inr ps @ rest" by simp
  have c2: "reads (length ps) rest ?c1 = reads (length (p # ps)) rest c"
    by (simp add: reads_reads)
  show ?case
  proof (cases "surfaced p")
    case False
    then have u: "progress_updates (p # ps) = progress_updates ps"
      and r: "routed_to_store (p # ps) = routed_to_store ps"
      by (simp_all add: progress_updates_def routed_to_store_def)
    have "progress_next self c = progress_next self ?c1"
      using progress_next_skip[OF Cons.prems(1) inbox q False] .
    then have "iterate self c = iterate self ?c1"
      by (subst iterate.simps, subst (2) iterate.simps) simp
    also note Cons.IH[OF Cons.prems(1) c1 qs Cons.prems(4)[unfolded r]]
    finally show ?thesis
      by (simp only: u c2)
  next
    case True
    show ?thesis
    proof (cases "progress p")
      case (Some u)
      let ?t1 = "plus_progress (progress_totals self) u"
      let ?s1 = "self\<lparr>progress_totals := ?t1\<rparr>"
      from True Some have u: "progress_updates (p # ps) = u # progress_updates ps"
        and r: "routed_to_store (p # ps) = routed_to_store ps"
        by (simp_all add: progress_updates_def routed_to_store_def)
      have g: "packet_generator ?s1 = Suspended"
        using Cons.prems(1) by simp
      have st: "store_all ?s1 (routed_to_store ps) = Inr (self'\<lparr>progress_totals := ?t1\<rparr>)"
        using Cons.prems(4)[unfolded r] by (rule store_all_totals_commute)
      have "iterate self c =
          apfst (apfst ((#) (progress_rows ?t1, progress_total_rows ?t1))) (iterate ?s1 ?c1)"
        by (subst iterate.simps)
          (simp add: progress_next_progress[OF Cons.prems(1) inbox True Some] split: prod.splits)
      also note Cons.IH[OF g c1 qs st]
      finally show ?thesis
        by (simp add: u reads_reads apfst_apfst_compose)
    next
      case None
      with True have u: "progress_updates (p # ps) = progress_updates ps"
        and r: "routed_to_store (p # ps) = p # routed_to_store ps"
        by (simp_all add: progress_updates_def routed_to_store_def)
      from Cons.prems(4)[unfolded r] obtain s1 where s1: "store self p = Inr s1"
        "store_all s1 (routed_to_store ps) = Inr self'"
        by (auto split: sum.splits)
      from s1(1) Cons.prems(1) have g: "packet_generator s1 = Suspended"
        by (simp add: store_keeps_generator)
      from s1(1) have t: "progress_totals s1 = progress_totals self"
        by (rule store_keeps_totals)
      have "progress_next self c = progress_next s1 ?c1"
        using progress_next_store[OF Cons.prems(1) inbox True None s1(1)] .
      then have "iterate self c = iterate s1 ?c1"
        by (subst iterate.simps, subst (2) iterate.simps) simp
      also note Cons.IH[OF g c1 qs s1(2)]
      finally show ?thesis
        by (simp only: u c2 t)
    qed
  qed
qed

lemma iterate_end_of_stream:
  assumes "packet_generator self = Suspended" and "inbox c = Inr x # rest"
    and "packet_type x = END_OF_STREAM"
  shows "iterate self c = (([], None), self\<lparr>packet_generator := Finished\<rparr>, reads 1 rest c)"
  by (subst iterate.simps) (simp add: progress_next_end_of_stream[OF assms])

lemma iterate_exception:
  assumes "packet_generator self = Suspended" and "inbox c = Inr x # rest"
    and "packet_type x = EXCEPTION"
  shows "iterate self c =
    (([], Some (raise_exception x)), self\<lparr>packet_generator := Finished\<rparr>,
     connection_disconnect (reads 1 rest c))"
  by (subst iterate.simps) (simp add: progress_next_exception[OF assms])

section \<open>Streams that end\<close>

lemma store_rowwise:
  "\<not> columnar self \<Longrightarrow> \<exists>self'. store self p = Inr self' \<and> \<not> columnar self'"
  by (simp add: store_def split: option.splits)

lemma store_all_rowwise:
  "\<not> columnar self \<Longrightarrow> \<exists>self'. store_all self ps = Inr self'"
proof (induction ps arbitrary: self)
  case Nil
  then show ?case by simp
next
  case (Cons p ps)
  from store_rowwise[OF Cons.prems, of p] obtain s1 where "store self p = Inr s1" "\<not> columnar s1"
    by auto
  with Cons.IH[of s1] show ?case by simp
qed

lemma store_same_width:
  assumes "case block p of None \<Rightarrow> True | Some b \<Rightarrow> rows b = 0 \<or> length (get_columns b) = n"
    and "columnar self" and "data self = [] \<or> length (data self) = n"
  shows "\<exists>self'. store self p = Inr self' \<and> columnar self' \<and>
           (data self' = [] \<or> length (data self') = n)"
proof (cases "block p")
  case None
  with assms show ?thesis by (simp add: store_def)
next
  case (Some b)
  show ?thesis
  proof (cases "rows b \<noteq> 0 \<and> data self \<noteq> []")
    case True
    with assms Some have len: "length (data self) = length (get_columns b)"
      by simp
    from True Some show ?thesis
      using assms(2,3) extend_columns_same_length[OF len] len
      by (simp add: store_def)
  next
    case False
    with assms Some show ?thesis
      by (auto simp: store_def)
  qed
qed

lemma store_all_same_width:
  "same_width n ps \<Longrightarrow> columnar self \<Longrightarrow> data self = [] \<or> length (data self) = n \<Longrightarrow>
   \<exists>self'. store_all self ps = Inr self'"
proof (induction ps arbitrary: self)
  case Nil
  then show ?case by simp
next
  case (Cons p ps)
  from Cons.prems have "case block p of None \<Rightarrow> True | Some b \<Rightarrow> rows b = 0 \<or> length (get_columns b) = n"
    and w: "same_width n ps"
    by (simp_all add: same_width_def)
  from store_same_width[OF this(1) Cons.prems(2,3)] obtain s1 where
    s1: "store self p = Inr s1" "columnar s1" "data s1 = [] \<or> length (data s1) = n"
    by auto
  from Cons.IH[OF w s1(2,3)] s1(1) show ?case by simp
qed

lemma same_width_filter: "same_width n ps \<Longrightarrow> same_width n (filter P ps)"
  by (simp add: same_width_def list_all_iff)

lemma store_all_succeeds:
  assumes "columnar self \<longrightarrow> same_width n ps" and "data self = []"
  shows "\<exists>self'. store_all self (filter P ps) = Inr self'"
proof (cases "columnar self")
  case True
  with assms(1) have "same_width n (filter P ps)"
    by (simp add: same_width_filter)
  from store_all_same_width[OF this True] assms(2) show ?thesis by blast
next
  case False
  then show ?thesis by (rule store_all_rowwise)
qed

lemma store_all_keeps_generator:
  "store_all self ps = Inr self' \<Longrightarrow> packet_generator self' = packet_generator self"
proof (induction ps arbitrary: self)
  case Nil
  then show ?case by simp
next
  case (Cons p ps)
  then obtain s1 where "store self p = Inr s1" "store_all s1 ps = Inr self'"
    by (auto split: sum.splits)
  with Cons.IH[of s1] show ?case
    by (simp add: store_keeps_generator)
qed

lemma disconnects_simps [simp]:
  "disconnects (connection_disconnect c) = Suc (disconnects c)"
  "disconnects (reads k rest c) = disconnects c"
  by (simp_all add: disconnects_def connection_disconnect_def logged_def)

text \<open>Eager accumulation over a stream whose first packet that is not quiet is \<open>x\<close>.\<close>

lemma get_result_to_end:
  assumes "inbox c = map Inr ps @ Inr x # rest" and "list_all quiet ps"
    and "col \<longrightarrow> same_width n ps"
  obtains q where "store_all (QueryResult wct col) (filter surfaced ps) = Inr q"
    and "packet_type x = END_OF_STREAM \<Longrightarrow>
         get_result (QueryResult wct col) c =
           (Inr (result_of q), q\<lparr>packet_generator := Finished\<rparr>, reads (Suc (length ps)) rest c)"
    and "packet_type x = EXCEPTION \<Longrightarrow>
         get_result (QueryResult wct col) c =
           (Inl (raise_exception x), q\<lparr>packet_generator := Finished\<rparr>,
            connection_disconnect (reads (Suc (length ps)) rest c))"
proof -
  let ?self = "QueryResult wct col :: 'a query_result"
  have "columnar ?self \<longrightarrow> same_width n ps" "data ?self = []"
    using assms(3) by (simp_all add: QueryResult_def)
  from store_all_succeeds[OF this] obtain q where q: "store_all ?self (filter surfaced ps) = Inr q"
    by blast
  have g: "packet_generator ?self = Suspended"
    by (simp add: QueryResult_def)
  from store_all_keeps_generator[OF q] g have gq: "packet_generator q = Suspended"
    by simp
  let ?c1 = "reads (length ps) (Inr x # rest) c"
  have loop: "get_result_loop ?self c = get_result_loop q ?c1"
    by (rule get_result_loop_prefix[OF g assms(1,2) q])
  have c1: "inbox ?c1 = Inr x # rest" by simp
  have "get_result ?self c =
      (Inr (result_of q), q\<lparr>packet_generator := Finished\<rparr>, reads (Suc (length ps)) rest c)"
    if "packet_type x = END_OF_STREAM"
    using loop get_result_loop_end_of_stream[OF gq c1 that]
    by (simp add: get_result_def result_of_def reads_reads)
  moreover have "get_result ?self c =
      (Inl (raise_exception x), q\<lparr>packet_generator := Finished\<rparr>,
       connection_disconnect (reads (Suc (length ps)) rest c))"
    if "packet_type x = EXCEPTION"
    using loop get_result_loop_exception[OF gq c1 that]
    by (simp add: get_result_def reads_reads)
  ultimately show ?thesis
    using q that by blast
qed

text \<open>Progress iteration over the same stream.\<close>

lemma iterate_to_end:
  assumes "inbox c = map Inr ps @ Inr x # rest" and "list_all quiet ps"
    and "col \<longrightarrow> same_width n ps"
  obtains q where "store_all (ProgressQueryResult wct col) (routed_to_store ps) = Inr q"
    and "packet_type x = END_OF_STREAM \<Longrightarrow>
         iterate (ProgressQueryResult wct col) c =
           ((partial_sums (progress_updates ps), None),
            q\<lparr>packet_generator := Finished, progress_totals := sum_progress (progress_updates ps)\<rparr>,
            reads (Suc (length ps)) rest c)"
    and "packet_type x = EXCEPTION \<Longrightarrow>
         iterate (ProgressQueryResult wct col) c =
           ((partial_sums (progress_updates ps), Some (raise_exception x)),
            q\<lparr>packet_generator := Finished, progress_totals := sum_progress (progress_updates ps)\<rparr>,
            connection_disconnect (reads (Suc (length ps)) rest c))"
proof -
  let ?self = "ProgressQueryResult wct col :: 'a progress_query_result"
  have "columnar ?self \<longrightarrow> same_width n ps" "data ?self = []"
    using assms(3) by (simp_all add: ProgressQueryResult_def)
  from store_all_succeeds[OF this, of "\<lambda>p. progress p = None \<and> surfaced p"]
  obtain q where q: "store_all ?self (routed_to_store ps) = Inr q"
    by (auto simp: routed_to_store_def conj_commute)
  have g: "packet_generator ?self = Suspended" and t: "progress_totals ?self = Progress"
    by (simp_all add: ProgressQueryResult_def)
  let ?q1 = "q\<lparr>progress_totals := sum_progress (progress_updates ps)\<rparr>"
  from store_all_keeps_generator[OF q] g have gq: "packet_generator ?q1 = Suspended"
    by simp
  let ?c1 = "reads (length ps) (Inr x # rest) c"
  have loop: "iterate ?self c =
      apfst (apfst ((@) (partial_sums (progress_updates ps)))) (iterate ?q1 ?c1)"
    using iterate_prefix[OF g assms(1,2) q]
    by (simp add: t running_Progress add_progress_Progress)
  have c1: "inbox ?c1 = Inr x # rest" by simp
  have "iterate ?self c =
      ((partial_sums (progress_updates ps), None),
       q\<lparr>packet_generator := Finished, progress_totals := sum_progress (progress_updates ps)\<rparr>,
       reads (Suc (length ps)) rest c)"
    if "packet_type x = END_OF_STREAM"
    using loop iterate_end_of_stream[OF gq c1 that]
    by (simp add: reads_reads)
  moreover have "iterate ?self c =
      ((partial_sums (progress_updates ps), Some (raise_exception x)),
       q\<lparr>packet_generator := Finished, progress_totals := sum_progress (progress_updates ps)\<rparr>,
       connection_disconnect (reads (Suc (length ps)) rest c))"
    if "packet_type x = EXCEPTION"
    using loop iterate_exception[OF gq c1 that]
    by (simp add: reads_reads)
  ultimately show ?thesis
    using q that by blast
qed

lemma ex_stream_facts:
  "list_all quiet ex_stream" "same_width 2 ex_stream"
  "progress_updates ex_stream =
     [\<lparr>progress_rows = 2, progress_bytes = 16, progress_total_rows = 3\<rparr>,
      \<lparr>progress_rows = 1, progress_bytes = 8, progress_total_rows = 0\<rparr>]"
  "length ex_stream = 5"
  by (simp_all add: ex_stream_def quiet_def same_width_def progress_updates_def surfaced_def
      progress_packet_def data_packet_def plain_packet_def ex_block1_def ex_block2_def)

lemma ex_partial_sums: "partial_sums (progress_updates ex_stream) = [(2, 3), (3, 3)]"
  by (simp add: ex_stream_facts partial_sums_def)

text \<open>
  C3. A stream of quiet packets followed by an exception packet that carries the error
  \<open>e\<close> (in column-major mode the blocks with rows share their column count): eager
  accumulation raises \<open>e\<close> itself; progress iteration yields the running sums of the
  progress updates before that packet and then raises \<open>e\<close> itself, and so does
  \<open>ProgressQueryResult.get_result\<close>. Both stop at that packet (what follows it stays
  unread, and the iterator is exhausted afterwards), and both call \<open>disconnect\<close> exactly
  once, after the read of that packet.
\<close>

theorem exception_packet_aborts:
  assumes "inbox c = map Inr ps @ Inr x # rest" and "list_all quiet ps"
    and "packet_type x = EXCEPTION" and "exception x = Some e"
    and "col \<longrightarrow> same_width n ps"
  shows "\<exists>q pq.
     get_result (QueryResult wct col) c =
       (Inl (Exception e), q, connection_disconnect (reads (Suc (length ps)) rest c)) \<and>
     iterate (ProgressQueryResult wct col) c =
       ((partial_sums (progress_updates ps), Some (Exception e)), pq,
        connection_disconnect (reads (Suc (length ps)) rest c)) \<and>
     progress_get_result (ProgressQueryResult wct col) c =
       (Inl (Exception e), pq, connection_disconnect (reads (Suc (length ps)) rest c)) \<and>
     progress_next pq (connection_disconnect (reads (Suc (length ps)) rest c)) =
       (StopIteration, pq, connection_disconnect (reads (Suc (length ps)) rest c)) \<and>
     inbox (connection_disconnect (reads (Suc (length ps)) rest c)) = rest \<and>
     calls (connection_disconnect (reads (Suc (length ps)) rest c)) =
       calls c @ replicate (Suc (length ps)) ReceivePacket @ [Disconnect] \<and>
     disconnects (connection_disconnect (reads (Suc (length ps)) rest c)) = Suc (disconnects c)"
proof -
  have e: "raise_exception x = Exception e"
    using assms(4) by (simp add: raise_exception_def)
  from get_result_to_end[OF assms(1,2,5), of wct] assms(3) e obtain q where
    q: "get_result (QueryResult wct col) c =
      (Inl (Exception e), q\<lparr>packet_generator := Finished\<rparr>,
       connection_disconnect (reads (Suc (length ps)) rest c))"
    by metis
  from iterate_to_end[OF assms(1,2,5), of wct] assms(3) e obtain pq where
    pq: "iterate (ProgressQueryResult wct col) c =
      ((partial_sums (progress_updates ps), Some (Exception e)),
       pq\<lparr>packet_generator := Finished, progress_totals := sum_progress (progress_updates ps)\<rparr>,
       connection_disconnect (reads (Suc (length ps)) rest c))"
    by metis
  let ?pq = "pq\<lparr>packet_generator := Finished, progress_totals := sum_progress (progress_updates ps)\<rparr>"
  have "progress_get_result (ProgressQueryResult wct col) c =
      (Inl (Exception e), ?pq, connection_disconnect (reads (Suc (length ps)) rest c))"
    by (simp add: progress_get_result_def pq)
  moreover have "progress_next ?pq (connection_disconnect (reads (Suc (length ps)) rest c)) =
      (StopIteration, ?pq, connection_disconnect (reads (Suc (length ps)) rest c))"
    by (rule progress_next_finished) simp
  moreover have "inbox (connection_disconnect (reads (Suc (length ps)) rest c)) = rest"
    "calls (connection_disconnect (reads (Suc (length ps)) rest c)) =
       calls c @ replicate (Suc (length ps)) ReceivePacket @ [Disconnect]"
    by (simp_all add: connection_disconnect_def)
  ultimately show ?thesis
    using q pq by (intro exI[of _ "q\<lparr>packet_generator := Finished\<rparr>"] exI[of _ ?pq]) simp
qed

theorem exception_packet_aborts_witness:
  "list_all quiet ex_stream \<and> same_width 2 ex_stream \<and>
   (\<exists>q pq.
      get_result (QueryResult False True)
        (scripted 2 (map Inr ex_stream @
           [Inr (exception_packet (ServerException 241 ''Memory limit exceeded'')),
            Inr (plain_packet END_OF_STREAM)]) []) =
        (Inl (Exception (ServerException 241 ''Memory limit exceeded'')), q,
         (scripted 2 [Inr (plain_packet END_OF_STREAM)] [])
           \<lparr>calls := replicate 6 ReceivePacket @ [Disconnect]\<rparr>) \<and>
      iterate (ProgressQueryResult False True)
        (scripted 2 (map Inr ex_stream @
           [Inr (exception_packet (ServerException 241 ''Memory limit exceeded'')),
            Inr (plain_packet END_OF_STREAM)]) []) =
        (([(2, 3), (3, 3)], Some (Exception (ServerException 241 ''Memory limit exceeded''))), pq,
         (scripted 2 [Inr (plain_packet END_OF_STREAM)] [])
           \<lparr>calls := replicate 6 ReceivePacket @ [Disconnect]\<rparr>))"
proof -
  let ?x = "exception_packet (ServerException 241 ''Memory limit exceeded'')"
  let ?c = "scripted 2 (map Inr ex_stream @ [Inr ?x, Inr (plain_packet END_OF_STREAM)]) []"
  have h: "inbox ?c = map Inr ex_stream @ Inr ?x # [Inr (plain_packet END_OF_STREAM)]"
    "list_all quiet ex_stream" "packet_type ?x = EXCEPTION"
    "exception ?x = Some (ServerException 241 ''Memory limit exceeded'')"
    "True \<longrightarrow> same_width 2 ex_stream"
    by (simp_all add: scripted_def exception_packet_def ex_stream_facts)
  have c: "connection_disconnect (reads (Suc (length ex_stream)) [Inr (plain_packet END_OF_STREAM)] ?c) =
      (scripted 2 [Inr (plain_packet END_OF_STREAM)] [])\<lparr>calls := replicate 6 ReceivePacket @ [Disconnect]\<rparr>"
    by (simp add: ex_stream_facts connection_disconnect_def reads_def logged_def scripted_def)
  from exception_packet_aborts[OF h, where wct = False] show ?thesis
    unfolding c ex_partial_sums using ex_stream_facts(1,2) by blast
qed

text \<open>
  C5. A stream of quiet packets followed by end-of-stream (in column-major mode the
  blocks with rows share their column count): exhausting the iterator yields exactly one
  pair per progress update, the running sums of \<open>rows\<close> and \<open>total_rows\<close> in arrival
  order, and leaves \<open>progress_totals\<close> equal to the sums of the three counters.
\<close>

theorem progress_totals_are_sums:
  assumes "inbox c = map Inr ps @ Inr x # rest" and "list_all quiet ps"
    and "packet_type x = END_OF_STREAM" and "col \<longrightarrow> same_width n ps"
  shows "\<exists>pq.
     iterate (ProgressQueryResult wct col) c =
       ((partial_sums (progress_updates ps), None), pq, reads (Suc (length ps)) rest c) \<and>
     progress_totals pq = sum_progress (progress_updates ps) \<and>
     length (partial_sums (progress_updates ps)) = length (progress_updates ps)"
proof -
  from iterate_to_end[OF assms(1,2,4), of wct] assms(3) obtain pq where
    "iterate (ProgressQueryResult wct col) c =
      ((partial_sums (progress_updates ps), None),
       pq\<lparr>packet_generator := Finished, progress_totals := sum_progress (progress_updates ps)\<rparr>,
       reads (Suc (length ps)) rest c)"
    by metis
  then show ?thesis
    by (intro exI[of _ "pq\<lparr>packet_generator := Finished,
        progress_totals := sum_progress (progress_updates ps)\<rparr>"]) (simp add: partial_sums_def)
qed

theorem progress_totals_are_sums_witness:
  "list_all quiet ex_stream \<and> same_width 2 ex_stream \<and>
   (\<exists>pq.
      iterate (ProgressQueryResult False True)
        (scripted 2 (map Inr ex_stream @ [Inr (plain_packet END_OF_STREAM)]) []) =
        (([(2, 3), (3, 3)], None), pq, (scripted 2 [] [])\<lparr>calls := replicate 6 ReceivePacket\<rparr>) \<and>
      progress_totals pq = \<lparr>progress_rows = 3, progress_bytes = 24, progress_total_rows = 3\<rparr>)"
proof -
  let ?x = "plain_packet END_OF_STREAM"
  let ?c = "scripted 2 (map Inr ex_stream @ [Inr ?x]) []"
  have h: "inbox ?c = map Inr ex_stream @ Inr ?x # []"
    "list_all quiet ex_stream" "packet_type ?x = END_OF_STREAM"
    "True \<longrightarrow> same_width 2 ex_stream"
    by (simp_all add: scripted_def plain_packet_def ex_stream_facts)
  have c: "reads (Suc (length ex_stream)) [] ?c = (scripted 2 [] [])\<lparr>calls := replicate 6 ReceivePacket\<rparr>"
    by (simp add: ex_stream_facts reads_def scripted_def)
  have s: "sum_progress (progress_updates ex_stream) =
      \<lparr>progress_rows = 3, progress_bytes = 24, progress_total_rows = 3\<rparr>"
    by (simp add: ex_stream_facts sum_progress_def)
  from progress_totals_are_sums[OF h, where wct = False] show ?thesis
    unfolding c ex_partial_sums s using ex_stream_facts(1,2) by blast
qed

text \<open>
  C7. A stream of quiet packets followed by end-of-stream (in column-major mode the
  blocks with rows share their column count). On reading the end-of-stream packet the
  generator stops without an exception and without disconnecting, and from then on it
  yields nothing. Eager accumulation and \<open>ProgressQueryResult.get_result\<close> return
  normally; their accumulators hold what storing the packets of kind Data, Progress,
  Totals or Extremes gives, the packets after end-of-stream stay unread, and no packet of
  another kind is ever yielded by the generator.
\<close>

theorem end_of_stream_terminates:
  assumes "inbox c = map Inr ps @ Inr x # rest" and "list_all quiet ps"
    and "packet_type x = END_OF_STREAM" and "col \<longrightarrow> same_width n ps"
  shows "packet_generator_next Suspended (reads (length ps) (Inr x # rest) c) =
           (StopIteration, Finished, reads (Suc (length ps)) rest c) \<and>
         packet_generator_next Finished c' = (StopIteration, Finished, c') \<and>
         (\<exists>q. store_all (QueryResult wct col) (filter surfaced ps) = Inr q \<and>
            get_result (QueryResult wct col) c =
              (Inr (result_of q), q\<lparr>packet_generator := Finished\<rparr>,
               reads (Suc (length ps)) rest c)) \<and>
         (\<exists>pq. store_all (ProgressQueryResult wct col) (routed_to_store ps) = Inr pq \<and>
            progress_get_result (ProgressQueryResult wct col) c =
              (Inr (result_of pq),
               pq\<lparr>packet_generator := Finished,
                  progress_totals := sum_progress (progress_updates ps)\<rparr>,
               reads (Suc (length ps)) rest c)) \<and>
         inbox (reads (Suc (length ps)) rest c) = rest \<and>
         disconnects (reads (Suc (length ps)) rest c) = disconnects c \<and>
         (packet_generator_next g c0 = (Yield p, g', c1) \<longrightarrow> surfaced p)"
proof -
  have "packet_generator_next Suspended (reads (length ps) (Inr x # rest) c) =
      (StopIteration, Finished, reads (Suc (length ps)) rest c)"
    using body_end_of_stream[of "reads (length ps) (Inr x # rest) c" x rest] assms(3)
    by (simp add: packet_generator_next_def reads_reads)
  moreover have "packet_generator_next Finished c' = (StopIteration, Finished, c')"
    by (simp add: packet_generator_next_def)
  moreover from get_result_to_end[OF assms(1,2,4), of wct] assms(3)
  have "\<exists>q. store_all (QueryResult wct col) (filter surfaced ps) = Inr q \<and>
      get_result (QueryResult wct col) c =
        (Inr (result_of q), q\<lparr>packet_generator := Finished\<rparr>, reads (Suc (length ps)) rest c)"
    by metis
  moreover have "\<exists>pq. store_all (ProgressQueryResult wct col) (routed_to_store ps) = Inr pq \<and>
      progress_get_result (ProgressQueryResult wct col) c =
        (Inr (result_of pq),
         pq\<lparr>packet_generator := Finished, progress_totals := sum_progress (progress_updates ps)\<rparr>,
         reads (Suc (length ps)) rest c)"
  proof -
    from iterate_to_end[OF assms(1,2,4), of wct] assms(3) obtain pq where
      pq: "store_all (ProgressQueryResult wct col) (routed_to_store ps) = Inr pq"
      "iterate (ProgressQueryResult wct col) c =
        ((partial_sums (progress_updates ps), None),
         pq\<lparr>packet_generator := Finished, progress_totals := sum_progress (progress_updates ps)\<rparr>,
         reads (Suc (length ps)) rest c)"
      by metis
    let ?pq = "pq\<lparr>packet_generator := Finished, progress_totals := sum_progress (progress_updates ps)\<rparr>"
    have "get_result_loop ?pq (reads (Suc (length ps)) rest c) =
        (Inr (), ?pq, reads (Suc (length ps)) rest c)"
      by (rule get_result_loop_finished) simp
    then have "progress_get_result (ProgressQueryResult wct col) c =
        (Inr (result_of pq), ?pq, reads (Suc (length ps)) rest c)"
      by (simp add: progress_get_result_def pq(2) get_result_def result_of_def)
    with pq(1) show ?thesis by blast
  qed
  moreover have "packet_generator_next g c0 = (Yield p, g', c1) \<longrightarrow> surfaced p"
    using next_yields_surfaced by blast
  ultimately show ?thesis
    by simp
qed

theorem end_of_stream_terminates_witness:
  "list_all quiet ex_stream \<and> same_width 2 ex_stream \<and>
   get_result (QueryResult False True)
     (scripted 2 (map Inr ex_stream @ [Inr (plain_packet END_OF_STREAM), Inr (plain_packet DATA)]) []) =
     (Inr (Rows [[1, 2, 3], [10, 20, 30]]),
      \<lparr>packet_generator = Finished, with_column_types = False, data = [[1, 2, 3], [10, 20, 30]],
       columns_with_types = [], columnar = True\<rparr>,
      (scripted 2 [Inr (plain_packet DATA)] [])\<lparr>calls := replicate 6 ReceivePacket\<rparr>)"
proof -
  let ?x = "plain_packet END_OF_STREAM"
  let ?c = "scripted 2 (map Inr ex_stream @ [Inr ?x, Inr (plain_packet DATA)]) []"
  have h: "inbox ?c = map Inr ex_stream @ Inr ?x # [Inr (plain_packet DATA)]"
    "list_all quiet ex_stream" "packet_type ?x = END_OF_STREAM"
    "True \<longrightarrow> same_width 2 ex_stream"
    by (simp_all add: scripted_def plain_packet_def ex_stream_facts)
  have c: "reads (Suc (length ex_stream)) [Inr (plain_packet DATA)] ?c =
      (scripted 2 [Inr (plain_packet DATA)] [])\<lparr>calls := replicate 6 ReceivePacket\<rparr>"
    by (simp add: ex_stream_facts reads_def scripted_def)
  have s: "store_all (QueryResult False True) (filter surfaced ex_stream) =
      Inr \<lparr>packet_generator = Suspended, with_column_types = False,
           data = [[1, 2, 3], [10, 20, 30]], columns_with_types = [], columnar = True\<rparr>"
    by (simp add: ex_stream_def surfaced_def progress_packet_def data_packet_def plain_packet_def
        ex_block1_def ex_block2_def store_def QueryResult_def)
  from end_of_stream_terminates[OF h, where wct = False] obtain q where
    q: "store_all (QueryResult False True) (filter surfaced ex_stream) = Inr q"
    "get_result (QueryResult False True) ?c =
       (Inr (result_of q), q\<lparr>packet_generator := Finished\<rparr>,
        reads (Suc (length ex_stream)) [Inr (plain_packet DATA)] ?c)"
    by blast
  from q(1) s have "q = \<lparr>packet_generator = Suspended, with_column_types = False,
      data = [[1, 2, 3], [10, 20, 30]], columns_with_types = [], columnar = True\<rparr>"
    by simp
  with q(2) have "get_result (QueryResult False True) ?c =
     (Inr (Rows [[1, 2, 3], [10, 20, 30]]),
      \<lparr>packet_generator = Finished, with_column_types = False, data = [[1, 2, 3], [10, 20, 30]],
       columns_with_types = [], columnar = True\<rparr>,
      (scripted 2 [Inr (plain_packet DATA)] [])\<lparr>calls := replicate 6 ReceivePacket\<rparr>)"
    unfolding c by (simp add: result_of_def)
  with ex_stream_facts(1,2) show ?thesis
    by blast
qed

section \<open>execute\<close>

lemma force_connect_established:
  "fst (connection_force_connect (connection self)) = Inr () \<Longrightarrow>
   connection_force_connect ((connection self)\<lparr>context_settings := query_settings self st\<rparr>) =
     (Inr (), established self st)"
  by (auto simp: established_def connection_force_connect_def transport_write_def
      split: list.splits option.splits)

lemma calls_established:
  assumes "fst (connection_force_connect (connection self)) = Inr ()"
  shows "calls (established self st) = calls (connection self) @ [ForceConnect]"
    and "inbox (established self st) = inbox (connection self)"
    and "connected (established self st)"
  using assms
  by (auto simp: established_def connection_force_connect_def transport_write_def logged_def
      split: list.splits option.splits)

lemma execute_established:
  assumes "fst (connection_force_connect (connection self)) = Inr ()"
  shows "execute E self query params wct ext qid st tc col =
    (case (case params of
             PyList rows_data \<Rightarrow>
               process_insert_query E (established self st) query rows_data ext qid
                 (query_settings self st) tc
           | _ \<Rightarrow>
               process_ordinary_query E (established self st) query params wct ext qid
                 (query_settings self st) tc col) of
       (Inl e, c2) \<Rightarrow>
         (Inl e, self\<lparr>connection := if caught e then connection_disconnect c2 else c2\<rparr>)
     | (Inr r, c2) \<Rightarrow> (Inr r, self\<lparr>connection := c2\<rparr>))"
  unfolding execute_def Let_def query_settings_def[symmetric]
  using force_connect_established[OF assms, of st]
  by simp





text \<open>
  C9, as stated, fails: \<open>execute\<close> calls \<open>force_connect()\<close> before it looks at
  \<open>params\<close>, so the connection has been used by the time the \<open>ValueError\<close> is raised
  (and the handler disconnects it afterwards).
\<close>

theorem execute_non_dict_params_no_io_counterexample:
  "calls (connection (idle_client [])) = [] \<and>
   fst (execute lenient (idle_client []) ''SELECT %(x)s'' (PyOther 5) False None None None False
     False) = Inl (Exception (ValueError ''Parameters are expected in dict form'')) \<and>
   calls (connection (snd
     (execute lenient (idle_client []) ''SELECT %(x)s'' (PyOther 5) False None None None False
       False))) = [ForceConnect, Disconnect]"
  by (simp add: execute_def Let_def idle_client_def scripted_def connection_force_connect_def
      transport_write_def logged_def process_ordinary_query_def substitute_params_def
      connection_disconnect_def)

text \<open>
  C9, amended. When \<open>force_connect()\<close> returns normally and \<open>params\<close> is neither
  \<open>None\<close>, a list or tuple, nor a dict, \<open>execute\<close> raises \<open>ValueError('Parameters are
  expected in dict form')\<close> before any query, external table or data block is sent and
  before any packet is read: the only calls made on the connection are \<open>force_connect\<close>
  before the check and \<open>disconnect\<close> after it.
\<close>

theorem execute_rejects_non_dict_params:
  assumes "fst (connection_force_connect (connection self)) = Inr ()"
  shows "execute E self query (PyOther v) wct ext qid st tc col =
           (Inl (Exception (ValueError ''Parameters are expected in dict form'')),
            self\<lparr>connection := connection_disconnect (established self st)\<rparr>) \<and>
         calls (connection_disconnect (established self st)) =
           calls (connection self) @ [ForceConnect, Disconnect] \<and>
         inbox (connection_disconnect (established self st)) = inbox (connection self)"
  using calls_established(1,2)[OF assms, of st]
  by (simp add: execute_established[OF assms] process_ordinary_query_def substitute_params_def
      connection_disconnect_def)

theorem execute_rejects_non_dict_params_witness:
  "fst (connection_force_connect (connection (idle_client [Inr (plain_packet END_OF_STREAM)]))) =
     Inr () \<and>
   fst (execute lenient (idle_client [Inr (plain_packet END_OF_STREAM)]) ''SELECT %(x)s''
     (PyOther 5) False None None None False False) =
     Inl (Exception (ValueError ''Parameters are expected in dict form'')) \<and>
   calls (connection (snd (execute lenient (idle_client [Inr (plain_packet END_OF_STREAM)])
     ''SELECT %(x)s'' (PyOther 5) False None None None False False))) =
     [ForceConnect, Disconnect] \<and>
   inbox (connection (snd (execute lenient (idle_client [Inr (plain_packet END_OF_STREAM)])
     ''SELECT %(x)s'' (PyOther 5) False None None None False False))) =
     [Inr (plain_packet END_OF_STREAM)]"
proof -
  let ?self = "idle_client [Inr (plain_packet END_OF_STREAM)]"
  have h: "fst (connection_force_connect (connection ?self)) = Inr ()"
    by (simp add: idle_client_def scripted_def connection_force_connect_def transport_write_def)
  have c: "calls (connection ?self) = []" "inbox (connection ?self) = [Inr (plain_packet END_OF_STREAM)]"
    by (simp_all add: idle_client_def scripted_def)
  from execute_rejects_non_dict_params[OF h, of lenient "''SELECT %(x)s''" 5 False None None None
      False False] h c
  show ?thesis
    by simp
qed

end
